theory Spec2Isabelle
  imports Complex_Main "HOL-Library.Sublist"
begin

section \<open>Python string primitives used by the deduplicator\<close>

text \<open>
  A Python \<open>str\<close> is modelled as an Isabelle \<open>string\<close>; a \<open>char\<close> stands for the code
  point with the same number (0 to 255). \<open>is_space\<close> lists the code points of that range
  that \<open>str.strip()\<close> and \<open>str.split()\<close> treat as whitespace: 9 to 13, 28 to 31, 32,
  133 and 160.
\<close>

definition is_space :: "char \<Rightarrow> bool" where
  "is_space c =
     (let n = (of_char c :: nat)
      in (9 \<le> n \<and> n \<le> 13) \<or> (28 \<le> n \<and> n \<le> 32) \<or> n = 133 \<or> n = 160)"

text \<open>\<open>s.split(sep)\<close> for a separator of one character: the pieces between separators,
  empty pieces kept, never an empty list.\<close>

fun split_on :: "char \<Rightarrow> string \<Rightarrow> string list" where
  "split_on sep [] = [[]]"
| "split_on sep (c # cs) =
     (if c = sep then [] # split_on sep cs
      else (case split_on sep cs of
              [] \<Rightarrow> [[c]]
            | w # ws \<Rightarrow> (c # w) # ws))"

text \<open>\<open>s.strip()\<close>: whitespace removed at both ends.\<close>

definition strip :: "string \<Rightarrow> string" where
  "strip s = rev (dropWhile is_space (rev (dropWhile is_space s)))"

text \<open>\<open>s.startswith(p)\<close> and \<open>s.startswith((p1, ..., pn))\<close>.\<close>

definition startswith :: "string \<Rightarrow> string \<Rightarrow> bool" where
  "startswith s p = (take (length p) s = p)"

definition startswith_any :: "string \<Rightarrow> string list \<Rightarrow> bool" where
  "startswith_any s ps = list_ex (startswith s) ps"

text \<open>\<open>s.split()\<close> without argument: the maximal runs of non-whitespace characters.
  \<open>cur\<close> is the token being read.\<close>

fun split_ws_from :: "string \<Rightarrow> string \<Rightarrow> string list" where
  "split_ws_from cur [] = (if cur = [] then [] else [cur])"
| "split_ws_from cur (c # cs) =
     (if is_space c
      then (if cur = [] then split_ws_from [] cs else cur # split_ws_from [] cs)
      else split_ws_from (cur @ [c]) cs)"

definition split_ws :: "string \<Rightarrow> string list" where
  "split_ws s = split_ws_from [] s"

text \<open>\<open>sep.join(xs)\<close>.\<close>

fun join :: "string \<Rightarrow> string list \<Rightarrow> string" where
  "join sep [] = []"
| "join sep [x] = x"
| "join sep (x # y # ys) = x @ sep @ join sep (y # ys)"

text \<open>\<open>s.lower()\<close> on the code points 0 to 255: A to Z and the capital letters 192 to 222
  (215, the multiplication sign, excepted) move up by 32.\<close>

definition lower_char :: "char \<Rightarrow> char" where
  "lower_char c =
     (let n = (of_char c :: nat)
      in if (65 \<le> n \<and> n \<le> 90) \<or> (192 \<le> n \<and> n \<le> 222 \<and> n \<noteq> 215)
         then char_of (n + 32) else c)"

definition lower :: "string \<Rightarrow> string" where
  "lower s = map lower_char s"

section \<open>IntelligentDeduplicator: normalisation\<close>

definition comment_prefixes :: "string list" where
  "comment_prefixes = [''#'', ''//'', ''/*'', ''*'']"

text \<open>The \<open>for line in lines\<close> loop of \<open>_normalize_content\<close>; \<open>normalized_lines\<close> is the
  list the loop appends to.\<close>

fun normalize_loop :: "string list \<Rightarrow> string list \<Rightarrow> string list" where
  "normalize_loop [] normalized_lines = normalized_lines"
| "normalize_loop (line # lines) normalized_lines =
     (let clean_line = strip line
      in if clean_line = [] \<or> startswith_any clean_line comment_prefixes
         then normalize_loop lines normalized_lines
         else normalize_loop lines
                (normalized_lines @ [join '' '' (split_ws clean_line)]))"

definition normalize_content :: "string \<Rightarrow> string" where
  "normalize_content content =
     join [CHR 0x0A] (normalize_loop (split_on (CHR 0x0A) content) [])"


section \<open>IntelligentDeduplicator: content hash\<close>

text \<open>
  \<open>hashlib.sha256(composite.encode()).hexdigest()\<close> is a library call. It enters the model
  as the parameter \<open>sha256_hex\<close>, a function from the text to its hexadecimal digest;
  nothing is assumed about it.
\<close>

type_synonym digest = string

record gene_data =
  g_content :: string
  g_type :: string
  g_name :: string
  g_complexity :: "int option"

definition calculate_content_hash ::
  "(string \<Rightarrow> digest) \<Rightarrow> string \<Rightarrow> string \<Rightarrow> string \<Rightarrow> digest" where
  "calculate_content_hash sha256_hex content gene_type name =
     (let normalized = normalize_content content;
          composite = normalized @ ''::'' @ gene_type @ ''::'' @ lower name
      in sha256_hex composite)"

definition gene_hash :: "(string \<Rightarrow> digest) \<Rightarrow> gene_data \<Rightarrow> digest" where
  "gene_hash sha256_hex g =
     calculate_content_hash sha256_hex (g_content g) (g_type g) (g_name g)"

section \<open>IntelligentDeduplicator: the two tables\<close>

text \<open>
  \<open>content_hashes\<close> has \<open>content_hash\<close> as primary key: a map from the digest to the rest
  of the row. \<open>gene_evolution\<close> has \<open>gene_id\<close> as primary key: the list of its rows in
  insertion order. The JSON columns are kept as the values they serialise; timestamps are
  the strings \<open>datetime.now().isoformat()\<close> returns; the REAL column
  \<open>confidence_score\<close> and the similarity are exact rationals.
\<close>

type_synonym timestamp = string

datatype metadata =
    Complexity_Meta int
  | Creation_Meta string int
  | Duplication_Meta string string

datatype evolution_kind = creation | duplication

record content_hash_row =
  ch_first_seen :: timestamp
  ch_last_seen :: timestamp
  ch_occurrence_count :: int
  ch_representative_gene_id :: string
  ch_file_paths :: "string list"
  ch_metadata :: metadata

record evolution_row =
  ev_gene_id :: string
  ev_content_hash :: digest
  ev_parent_gene_id :: "string option"
  ev_evolution_type :: evolution_kind
  ev_confidence_score :: rat
  ev_timestamp :: timestamp
  ev_metadata :: metadata

record store =
  content_hashes :: "digest \<rightharpoonup> content_hash_row"
  gene_evolution :: "evolution_row list"

definition empty_store :: store where
  "empty_store = \<lparr>content_hashes = Map.empty, gene_evolution = []\<rparr>"

datatype db_error = IntegrityError | IndexError

text \<open>\<open>INSERT INTO gene_evolution\<close>: refused when the primary key is already there.\<close>

definition insert_evolution :: "evolution_row \<Rightarrow> evolution_row list \<Rightarrow> db_error + evolution_row list" where
  "insert_evolution row rows =
     (if ev_gene_id row \<in> set (map ev_gene_id rows) then Inl IntegrityError
      else Inr (rows @ [row]))"

text \<open>\<open>INSERT OR REPLACE INTO gene_evolution\<close>: a row with the same primary key is deleted,
  then the new row is inserted.\<close>

definition insert_or_replace_evolution :: "evolution_row \<Rightarrow> evolution_row list \<Rightarrow> evolution_row list" where
  "insert_or_replace_evolution row rows =
     filter (\<lambda>r. ev_gene_id r \<noteq> ev_gene_id row) rows @ [row]"

section \<open>IntelligentDeduplicator: is\_duplicate and register\_gene\<close>

definition is_duplicate :: "(string \<Rightarrow> digest) \<Rightarrow> store \<Rightarrow> gene_data \<Rightarrow> bool \<times> string option" where
  "is_duplicate sha256_hex db g =
     (let content_hash = gene_hash sha256_hex g
      in case content_hashes db content_hash of
           Some result \<Rightarrow> (True, Some (ch_representative_gene_id result))
         | None \<Rightarrow> (False, None))"

datatype action = created_new | linked_to_existing

text \<open>The dictionary \<open>register_gene\<close> returns; a key the dictionary does not hold is
  \<open>None\<close>.\<close>

record registration =
  r_is_duplicate :: bool
  r_representative_gene_id :: "string option"
  r_occurrence_count :: "int option"
  r_gene_id :: "string option"
  r_action :: action

text \<open>
  \<open>now k\<close> is what the call number \<open>k\<close> of \<open>datetime.now().isoformat()\<close> returns during
  this call of \<open>register_gene\<close>. An exception leaves the function before \<open>conn.commit()\<close>,
  so the tables stay as they were: the error is returned without a store.
\<close>

definition register_gene ::
  "(string \<Rightarrow> digest) \<Rightarrow> (nat \<Rightarrow> timestamp) \<Rightarrow> store \<Rightarrow> gene_data \<Rightarrow> string \<Rightarrow> string
   \<Rightarrow> db_error + (registration \<times> store)" where
  "register_gene sha256_hex now db g gene_id file_path =
     (let content_hash = gene_hash sha256_hex g
      in case content_hashes db content_hash of
           Some existing \<Rightarrow>
             (let existing_paths =
                    (if file_path \<notin> set (ch_file_paths existing)
                     then ch_file_paths existing @ [file_path]
                     else ch_file_paths existing);
                  updated = existing
                    \<lparr>ch_last_seen := now 0,
                     ch_occurrence_count := ch_occurrence_count existing + 1,
                     ch_file_paths := existing_paths\<rparr>
              in case existing_paths of
                   [] \<Rightarrow> Inl IndexError
                 | original_file # _ \<Rightarrow>
                     Inr (\<lparr>r_is_duplicate = True,
                           r_representative_gene_id = Some (ch_representative_gene_id existing),
                           r_occurrence_count = Some (ch_occurrence_count existing + 1),
                           r_gene_id = None,
                           r_action = linked_to_existing\<rparr>,
                          \<lparr>content_hashes = (content_hashes db)(content_hash \<mapsto> updated),
                           gene_evolution =
                             insert_or_replace_evolution
                               \<lparr>ev_gene_id = gene_id,
                                ev_content_hash = content_hash,
                                ev_parent_gene_id = Some (ch_representative_gene_id existing),
                                ev_evolution_type = duplication,
                                ev_confidence_score = 95 / 100,
                                ev_timestamp = now 1,
                                ev_metadata = Duplication_Meta original_file file_path\<rparr>
                               (gene_evolution db)\<rparr>))
         | None \<Rightarrow>
             (let inserted =
                    \<lparr>ch_first_seen = now 0,
                     ch_last_seen = now 1,
                     ch_occurrence_count = 1,
                     ch_representative_gene_id = gene_id,
                     ch_file_paths = [file_path],
                     ch_metadata =
                       Complexity_Meta (case g_complexity g of None \<Rightarrow> 0 | Some c \<Rightarrow> c)\<rparr>
              in case insert_evolution
                        \<lparr>ev_gene_id = gene_id,
                         ev_content_hash = content_hash,
                         ev_parent_gene_id = None,
                         ev_evolution_type = creation,
                         ev_confidence_score = 1,
                         ev_timestamp = now 2,
                         ev_metadata = Creation_Meta file_path (int (length (g_content g)))\<rparr>
                        (gene_evolution db) of
                   Inl e \<Rightarrow> Inl e
                 | Inr rows \<Rightarrow>
                     Inr (\<lparr>r_is_duplicate = False,
                           r_representative_gene_id = None,
                           r_occurrence_count = None,
                           r_gene_id = Some gene_id,
                           r_action = created_new\<rparr>,
                          \<lparr>content_hashes = (content_hashes db)(content_hash \<mapsto> inserted),
                           gene_evolution = rows\<rparr>)))"

text \<open>One call of \<open>register_gene\<close> with its arguments and clock, and a caller that makes
  the calls of a list one after the other, stopping at the first exception.\<close>

record register_call =
  c_gene :: gene_data
  c_gene_id :: string
  c_file_path :: string
  c_now :: "nat \<Rightarrow> timestamp"

fun register_all :: "(string \<Rightarrow> digest) \<Rightarrow> store \<Rightarrow> register_call list \<Rightarrow> db_error + store" where
  "register_all sha256_hex db [] = Inr db"
| "register_all sha256_hex db (c # cs) =
     (case register_gene sha256_hex (c_now c) db (c_gene c) (c_gene_id c) (c_file_path c) of
        Inl e \<Rightarrow> Inl e
      | Inr (result, db') \<Rightarrow> register_all sha256_hex db' cs)"

section \<open>register\_gene as two steps: the SELECT and the writes\<close>

text \<open>
  \<open>register_gene\<close> reads the row of the fingerprint with a \<open>SELECT\<close> (lines 128 to 133) and
  only then writes (lines 135 to 193). The code takes no lock and opens no transaction
  around the two, so another call can write between them. \<open>register_check\<close> is the
  \<open>SELECT\<close>; \<open>register_write\<close> is the rest of the function, run on the tables as they are
  when it starts, with the row the \<open>SELECT\<close> returned earlier. Its statements are one
  SQLite write transaction, ended by \<open>conn.commit()\<close>, and SQLite lets one connection
  write at a time. \<open>INSERT INTO content_hashes\<close> is refused when the primary key
  \<open>content_hash\<close> is there by then, and \<open>UPDATE ... WHERE content_hash = ?\<close> changes the
  row that is there by then, with the path list computed from the row read earlier.
\<close>

definition register_check :: "(string \<Rightarrow> digest) \<Rightarrow> store \<Rightarrow> gene_data \<Rightarrow> content_hash_row option" where
  "register_check sha256_hex db g = content_hashes db (gene_hash sha256_hex g)"

definition register_write ::
  "(string \<Rightarrow> digest) \<Rightarrow> (nat \<Rightarrow> timestamp) \<Rightarrow> store \<Rightarrow> gene_data \<Rightarrow> string \<Rightarrow> string
   \<Rightarrow> content_hash_row option \<Rightarrow> db_error + (registration \<times> store)" where
  "register_write sha256_hex now db g gene_id file_path existing_row =
     (let content_hash = gene_hash sha256_hex g
      in case existing_row of
           Some existing \<Rightarrow>
             (let existing_paths =
                    (if file_path \<notin> set (ch_file_paths existing)
                     then ch_file_paths existing @ [file_path]
                     else ch_file_paths existing);
                  hashes =
                    (case content_hashes db content_hash of
                       None \<Rightarrow> content_hashes db
                     | Some current \<Rightarrow>
                         (content_hashes db)(content_hash \<mapsto> current
                            \<lparr>ch_last_seen := now 0,
                             ch_occurrence_count := ch_occurrence_count current + 1,
                             ch_file_paths := existing_paths\<rparr>))
              in case existing_paths of
                   [] \<Rightarrow> Inl IndexError
                 | original_file # _ \<Rightarrow>
                     Inr (\<lparr>r_is_duplicate = True,
                           r_representative_gene_id = Some (ch_representative_gene_id existing),
                           r_occurrence_count = Some (ch_occurrence_count existing + 1),
                           r_gene_id = None,
                           r_action = linked_to_existing\<rparr>,
                          \<lparr>content_hashes = hashes,
                           gene_evolution =
                             insert_or_replace_evolution
                               \<lparr>ev_gene_id = gene_id,
                                ev_content_hash = content_hash,
                                ev_parent_gene_id = Some (ch_representative_gene_id existing),
                                ev_evolution_type = duplication,
                                ev_confidence_score = 95 / 100,
                                ev_timestamp = now 1,
                                ev_metadata = Duplication_Meta original_file file_path\<rparr>
                               (gene_evolution db)\<rparr>))
         | None \<Rightarrow>
             (case content_hashes db content_hash of
                Some current \<Rightarrow> Inl IntegrityError
              | None \<Rightarrow>
                  (let inserted =
                         \<lparr>ch_first_seen = now 0,
                          ch_last_seen = now 1,
                          ch_occurrence_count = 1,
                          ch_representative_gene_id = gene_id,
                          ch_file_paths = [file_path],
                          ch_metadata =
                            Complexity_Meta (case g_complexity g of None \<Rightarrow> 0 | Some c \<Rightarrow> c)\<rparr>
                   in case insert_evolution
                             \<lparr>ev_gene_id = gene_id,
                              ev_content_hash = content_hash,
                              ev_parent_gene_id = None,
                              ev_evolution_type = creation,
                              ev_confidence_score = 1,
                              ev_timestamp = now 2,
                              ev_metadata = Creation_Meta file_path (int (length (g_content g)))\<rparr>
                             (gene_evolution db) of
                        Inl e \<Rightarrow> Inl e
                      | Inr rows \<Rightarrow>
                          Inr (\<lparr>r_is_duplicate = False,
                                r_representative_gene_id = None,
                                r_occurrence_count = None,
                                r_gene_id = Some gene_id,
                                r_action = created_new\<rparr>,
                               \<lparr>content_hashes = (content_hashes db)(content_hash \<mapsto> inserted),
                                gene_evolution = rows\<rparr>))))"

text \<open>Two callers, each with one call to make, and the order in which their steps run.
  \<open>rs_existing\<close> holds what each caller's \<open>SELECT\<close> returned, \<open>rs_outcome\<close> what each
  call returned or raised.\<close>

datatype caller = First | Second

datatype event = Check caller | Write caller

record race_state =
  rs_db :: store
  rs_existing :: "caller \<Rightarrow> content_hash_row option"
  rs_outcome :: "caller \<Rightarrow> (db_error + registration) option"

definition race_start :: "store \<Rightarrow> race_state" where
  "race_start db = \<lparr>rs_db = db, rs_existing = (\<lambda>x. None), rs_outcome = (\<lambda>x. None)\<rparr>"

fun run_schedule ::
  "(string \<Rightarrow> digest) \<Rightarrow> (caller \<Rightarrow> register_call) \<Rightarrow> event list \<Rightarrow> race_state \<Rightarrow> race_state" where
  "run_schedule sha256_hex calls [] s = s"
| "run_schedule sha256_hex calls (Check x # es) s =
     run_schedule sha256_hex calls es
       (s\<lparr>rs_existing := (rs_existing s)(x := register_check sha256_hex (rs_db s) (c_gene (calls x)))\<rparr>)"
| "run_schedule sha256_hex calls (Write x # es) s =
     (case register_write sha256_hex (c_now (calls x)) (rs_db s) (c_gene (calls x))
             (c_gene_id (calls x)) (c_file_path (calls x)) (rs_existing s x) of
        Inl e \<Rightarrow>
          run_schedule sha256_hex calls es (s\<lparr>rs_outcome := (rs_outcome s)(x := Some (Inl e))\<rparr>)
      | Inr (res, db') \<Rightarrow>
          run_schedule sha256_hex calls es
            (s\<lparr>rs_db := db', rs_outcome := (rs_outcome s)(x := Some (Inr res))\<rparr>))"

text \<open>The six orders of the four steps in which each caller checks before it writes:
  one call after the other, or both checks before both writes.\<close>

definition sequential_schedules :: "event list list" where
  "sequential_schedules =
     [[Check First, Write First, Check Second, Write Second],
      [Check Second, Write Second, Check First, Write First]]"

definition racing_schedules :: "event list list" where
  "racing_schedules =
     [[Check First, Check Second, Write First, Write Second],
      [Check Second, Check First, Write First, Write Second],
      [Check First, Check Second, Write Second, Write First],
      [Check Second, Check First, Write Second, Write First]]"

text \<open>What a caller got back, the other caller, and the result and store of a call that
  creates the row of its fingerprint.\<close>

definition returned_action :: "race_state \<Rightarrow> caller \<Rightarrow> action \<Rightarrow> bool" where
  "returned_action s x a =
     (case rs_outcome s x of Some (Inr res) \<Rightarrow> r_action res = a | _ \<Rightarrow> False)"

definition raised :: "race_state \<Rightarrow> caller \<Rightarrow> db_error \<Rightarrow> bool" where
  "raised s x e = (rs_outcome s x = Some (Inl e))"

definition other :: "caller \<Rightarrow> caller" where
  "other x = (case x of First \<Rightarrow> Second | Second \<Rightarrow> First)"

definition created_result :: "register_call \<Rightarrow> registration" where
  "created_result c =
     \<lparr>r_is_duplicate = False, r_representative_gene_id = None, r_occurrence_count = None,
      r_gene_id = Some (c_gene_id c), r_action = created_new\<rparr>"

definition created_store :: "(string \<Rightarrow> digest) \<Rightarrow> store \<Rightarrow> register_call \<Rightarrow> store" where
  "created_store sha256_hex db c =
     \<lparr>content_hashes = (content_hashes db)(gene_hash sha256_hex (c_gene c) \<mapsto>
        \<lparr>ch_first_seen = c_now c 0, ch_last_seen = c_now c 1, ch_occurrence_count = 1,
         ch_representative_gene_id = c_gene_id c, ch_file_paths = [c_file_path c],
         ch_metadata = Complexity_Meta (case g_complexity (c_gene c) of None \<Rightarrow> 0 | Some k \<Rightarrow> k)\<rparr>),
      gene_evolution = gene_evolution db @
        [\<lparr>ev_gene_id = c_gene_id c, ev_content_hash = gene_hash sha256_hex (c_gene c),
          ev_parent_gene_id = None, ev_evolution_type = creation, ev_confidence_score = 1,
          ev_timestamp = c_now c 2,
          ev_metadata = Creation_Meta (c_file_path c) (int (length (g_content (c_gene c))))\<rparr>]\<rparr>"

section \<open>IntelligentDeduplicator: detect\_mutations\<close>

text \<open>
  \<open>intersection / union\<close> is a division of two Python integers and the thresholds are the
  literals 0.8 and 0.3. The model computes with exact rationals: the quotient of two
  integers is rounded to the nearest double, as the literals are, so a quotient that is
  exactly 4/5 or 3/10 is the same double as the literal and compares as equal to it.
\<close>

definition calculate_similarity :: "string \<Rightarrow> string \<Rightarrow> rat" where
  "calculate_similarity content1 content2 =
     (let words1 = set (split_ws (normalize_content content1));
          words2 = set (split_ws (normalize_content content2))
      in if words1 = {} \<and> words2 = {} then 1
         else (let intersection = card (words1 \<inter> words2);
                   union = card (words1 \<union> words2)
               in if union > 0 then of_nat intersection / of_nat union else 0))"

datatype change_kind = no_change | mutation | major_refactor | replacement

text \<open>The dictionary \<open>detect_mutations\<close> returns; the \<open>no_change\<close> dictionary has the keys
  \<open>type\<close> and \<open>confidence\<close> only.\<close>

record mutation_result =
  m_type :: change_kind
  m_confidence :: rat
  m_old_hash :: "digest option"
  m_new_hash :: "digest option"
  m_similarity :: "rat option"

definition detect_mutations :: "(string \<Rightarrow> digest) \<Rightarrow> gene_data \<Rightarrow> gene_data \<Rightarrow> mutation_result" where
  "detect_mutations sha256_hex old_gene new_gene =
     (let old_hash = calculate_content_hash sha256_hex (g_content old_gene) (g_type old_gene) (g_name old_gene);
          new_hash = calculate_content_hash sha256_hex (g_content new_gene) (g_type new_gene) (g_name new_gene)
      in if old_hash = new_hash
         then \<lparr>m_type = no_change, m_confidence = 1,
               m_old_hash = None, m_new_hash = None, m_similarity = None\<rparr>
         else (let similarity = calculate_similarity (g_content old_gene) (g_content new_gene)
               in if similarity > 8 / 10
                  then \<lparr>m_type = mutation, m_confidence = similarity,
                        m_old_hash = Some old_hash, m_new_hash = Some new_hash,
                        m_similarity = Some similarity\<rparr>
                  else if similarity > 3 / 10
                  then \<lparr>m_type = major_refactor, m_confidence = similarity,
                        m_old_hash = Some old_hash, m_new_hash = Some new_hash,
                        m_similarity = Some similarity\<rparr>
                  else \<lparr>m_type = replacement, m_confidence = 1 - similarity,
                        m_old_hash = Some old_hash, m_new_hash = Some new_hash,
                        m_similarity = Some similarity\<rparr>))"

section \<open>GeneticReconstruction: reconstruct\_file\<close>

text \<open>
  A row of the table \<open>genes\<close>. The column \<open>content\<close> holds JSON text; the row keeps what
  \<open>json.loads\<close> makes of it: \<open>None\<close> when the text does not parse to a dictionary (the
  loop then raises), otherwise the values of the three keys the loop reads, \<open>None\<close> for a
  key that is absent. \<open>JOther\<close> is any JSON value that is not a string. \<open>created_at\<close> is a
  number.
\<close>

datatype json = JString string | JOther

record gene_json =
  j_type :: "json option"
  j_code :: "json option"
  j_content :: "json option"

record gene_row =
  gr_gene_id :: string
  gr_file_path :: string
  gr_created_at :: nat
  gr_content :: "gene_json option"

datatype reconstruction_error =
    Database_connection_failed
  | No_genes_found
  | Reconstruction_failed

record reconstruction =
  rc_file_path :: string
  rc_version :: string
  rc_reconstructed_content :: string
  rc_gene_count :: nat
  rc_genes_used :: "string list"
  rc_content_hash :: string

text \<open>\<open>ORDER BY created_at DESC\<close>: a stable sort, so rows of equal \<open>created_at\<close> keep
  their order in the table, which is the order SQLite returns them in.\<close>

definition order_by_created_at_desc :: "gene_row list \<Rightarrow> gene_row list" where
  "order_by_created_at_desc rows = rev (sort_key gr_created_at (rev rows))"

text \<open>
  The \<open>for gene in genes\<close> loop with its two variables. A value that is not a string
  raises: \<open>code + "\n\n"\<close> at once, the \<open>content\<close> of a \<open>full_file\<close> gene at
  \<open>reconstructed_content.encode()\<close> after the loop; both end in the \<open>except\<close> branch.
\<close>

fun reconstruct_loop :: "gene_row list \<Rightarrow> string \<Rightarrow> nat \<Rightarrow> reconstruction_error + (string \<times> nat)" where
  "reconstruct_loop [] reconstructed_content gene_count = Inr (reconstructed_content, gene_count)"
| "reconstruct_loop (gene # genes) reconstructed_content gene_count =
     (case gr_content gene of
        None \<Rightarrow> Inl Reconstruction_failed
      | Some gene_data \<Rightarrow>
          if j_type gene_data = Some (JString ''function'')
          then (case j_code gene_data of
                  None \<Rightarrow>
                    reconstruct_loop genes
                      (reconstructed_content @ [] @ [CHR 0x0A, CHR 0x0A]) (gene_count + 1)
                | Some (JString code) \<Rightarrow>
                    reconstruct_loop genes
                      (reconstructed_content @ code @ [CHR 0x0A, CHR 0x0A]) (gene_count + 1)
                | Some JOther \<Rightarrow> Inl Reconstruction_failed)
          else if j_type gene_data = Some (JString ''full_file'')
          then (case j_content gene_data of
                  None \<Rightarrow> Inr ([], 1)
                | Some (JString c) \<Rightarrow> Inr (c, 1)
                | Some JOther \<Rightarrow> Inl Reconstruction_failed)
          else reconstruct_loop genes reconstructed_content gene_count)"

text \<open>
  \<open>db\<close> is \<open>None\<close> when \<open>connect_db\<close> fails and the table \<open>genes\<close> otherwise.
  \<open>like p s\<close> is SQLite's \<open>s LIKE p\<close>, a parameter as \<open>sha256_hex\<close> is.
\<close>

definition reconstruct_file ::
  "(string \<Rightarrow> digest) \<Rightarrow> (string \<Rightarrow> string \<Rightarrow> bool) \<Rightarrow> gene_row list option \<Rightarrow> string \<Rightarrow> string
   \<Rightarrow> reconstruction_error + reconstruction" where
  "reconstruct_file sha256_hex like db file_path version =
     (case db of
        None \<Rightarrow> Inl Database_connection_failed
      | Some table \<Rightarrow>
          (let genes =
                 (if version = ''latest''
                  then order_by_created_at_desc
                         (filter (\<lambda>r. gr_file_path r = file_path) table)
                  else order_by_created_at_desc
                         (filter (\<lambda>r. gr_file_path r = file_path
                                      \<and> like (''%'' @ version @ ''%'') (gr_gene_id r)) table))
           in if genes = [] then Inl No_genes_found
              else (case reconstruct_loop genes [] 0 of
                      Inl e \<Rightarrow> Inl e
                    | Inr (reconstructed_content, gene_count) \<Rightarrow>
                        Inr \<lparr>rc_file_path = file_path,
                             rc_version = version,
                             rc_reconstructed_content = reconstructed_content,
                             rc_gene_count = gene_count,
                             rc_genes_used = map gr_gene_id genes,
                             rc_content_hash = take 8 (sha256_hex reconstructed_content)\<rparr>)))"

section \<open>The specification's wording of normalisation and similarity\<close>

text \<open>Collapsing each run of whitespace of a line to one space.\<close>

function spec_collapse_runs :: "string \<Rightarrow> string" where
  "spec_collapse_runs [] = []"
| "spec_collapse_runs (c # cs) =
     (if is_space c then CHR '' '' # spec_collapse_runs (dropWhile is_space cs)
      else c # spec_collapse_runs cs)"
  by pat_completeness auto
termination
  by (relation "measure length") (auto simp: length_dropWhile_le less_Suc_eq_le)

text \<open>A trimmed line is dropped when it is empty or begins with a comment prefix.\<close>

definition spec_dropped :: "string \<Rightarrow> bool" where
  "spec_dropped l = (l = [] \<or> (\<exists>p \<in> {''#'', ''//'', ''/*'', ''*''}. prefix p l))"

definition spec_normalize :: "string \<Rightarrow> string" where
  "spec_normalize text =
     join [CHR 0x0A]
       (map spec_collapse_runs
          (filter (\<lambda>l. \<not> spec_dropped l) (map strip (split_on (CHR 0x0A) text))))"

text \<open>A line without whitespace at either end.\<close>

definition no_outer_space :: "string \<Rightarrow> bool" where
  "no_outer_space s = (s = [] \<or> (\<not> is_space (hd s) \<and> \<not> is_space (last s)))"

text \<open>Jaccard similarity of two token sets: 1 when both are empty, the size of the
  intersection over the size of the union otherwise.\<close>

definition spec_tokens :: "string \<Rightarrow> string set" where
  "spec_tokens content = set (split_ws (normalize_content content))"

definition spec_jaccard :: "string set \<Rightarrow> string set \<Rightarrow> rat" where
  "spec_jaccard A B =
     (if A = {} \<and> B = {} then 1
      else if A \<union> B = {} then 0
      else of_nat (card (A \<inter> B)) / of_nat (card (A \<union> B)))"

text \<open>
  The name enters the fingerprint without regard to case: two names are the same when they
  have the same length and, place by place, the same character or an upper-case letter and
  its lower-case form, 32 code points above it. The upper-case letters of the code points
  0 to 255 are A to Z and 192 to 222 without 215.
\<close>

definition spec_upper :: "char \<Rightarrow> bool" where
  "spec_upper c =
     (let n = (of_char c :: nat)
      in (65 \<le> n \<and> n \<le> 90) \<or> (192 \<le> n \<and> n \<le> 222 \<and> n \<noteq> 215))"

definition spec_same_letter :: "char \<Rightarrow> char \<Rightarrow> bool" where
  "spec_same_letter a b =
     (a = b
      \<or> (spec_upper a \<and> (of_char b :: nat) = of_char a + 32)
      \<or> (spec_upper b \<and> (of_char a :: nat) = of_char b + 32))"

definition spec_same_name :: "string \<Rightarrow> string \<Rightarrow> bool" where
  "spec_same_name n1 n2 = list_all2 spec_same_letter n1 n2"

text \<open>The composite string of a gene, and a digest function that does not give two
  different composite strings of two given genes the same digest.\<close>

definition spec_composite :: "gene_data \<Rightarrow> string" where
  "spec_composite g =
     spec_normalize (g_content g) @ ''::'' @ g_type g @ ''::'' @ lower (g_name g)"

definition no_collision :: "(string \<Rightarrow> digest) \<Rightarrow> gene_data \<Rightarrow> gene_data \<Rightarrow> bool" where
  "no_collision sha256_hex g1 g2 =
     (sha256_hex (spec_composite g1) = sha256_hex (spec_composite g2)
        \<longrightarrow> spec_composite g1 = spec_composite g2)"

section \<open>Example data for the instances below\<close>

text \<open>
  The instances need a digest function they can compute with. \<open>toy_digest\<close> keeps the
  text as it is, so two texts have the same digest exactly when they are equal; on the
  texts of the instances below SHA-256 separates the same pairs.
\<close>

definition toy_digest :: "string \<Rightarrow> digest" where
  "toy_digest s = s"

definition clock_a :: "nat \<Rightarrow> timestamp" where
  "clock_a k = ''2025-01-01T10:00:0'' @ [''012'' ! (k mod 3)]"

definition clock_b :: "nat \<Rightarrow> timestamp" where
  "clock_b k = ''2025-01-02T10:00:0'' @ [''012'' ! (k mod 3)]"

definition gene_sum :: gene_data where
  "gene_sum = \<lparr>g_content = ''function sum(a,b){return a+b;}'', g_type = ''function'',
               g_name = ''sum'', g_complexity = None\<rparr>"

definition gene_sum_spaced :: gene_data where
  "gene_sum_spaced = \<lparr>g_content = ''  function   sum(a,b){return a+b;} '', g_type = ''function'',
               g_name = ''sum'', g_complexity = Some 1\<rparr>"

definition gene_other :: gene_data where
  "gene_other = \<lparr>g_content = ''return 0;'', g_type = ''function'',
               g_name = ''zero'', g_complexity = None\<rparr>"

text \<open>The store after \<open>gene_sum\<close> was registered as \<open>G-1\<close> from \<open>a.js\<close> in the empty store,
  and the store after \<open>gene_sum_spaced\<close> was then registered as \<open>G-2\<close> from \<open>b.js\<close>.\<close>

definition store_one :: store where
  "store_one =
     \<lparr>content_hashes = Map.empty(gene_hash toy_digest gene_sum \<mapsto>
        \<lparr>ch_first_seen = clock_a 0, ch_last_seen = clock_a 1, ch_occurrence_count = 1,
         ch_representative_gene_id = ''G-1'', ch_file_paths = [''a.js''],
         ch_metadata = Complexity_Meta 0\<rparr>),
      gene_evolution =
        [\<lparr>ev_gene_id = ''G-1'', ev_content_hash = gene_hash toy_digest gene_sum,
          ev_parent_gene_id = None, ev_evolution_type = creation, ev_confidence_score = 1,
          ev_timestamp = clock_a 2, ev_metadata = Creation_Meta ''a.js'' 30\<rparr>]\<rparr>"

definition store_two :: store where
  "store_two =
     \<lparr>content_hashes = Map.empty(gene_hash toy_digest gene_sum \<mapsto>
        \<lparr>ch_first_seen = clock_a 0, ch_last_seen = clock_b 0, ch_occurrence_count = 2,
         ch_representative_gene_id = ''G-1'', ch_file_paths = [''a.js'', ''b.js''],
         ch_metadata = Complexity_Meta 0\<rparr>),
      gene_evolution =
        [\<lparr>ev_gene_id = ''G-1'', ev_content_hash = gene_hash toy_digest gene_sum,
          ev_parent_gene_id = None, ev_evolution_type = creation, ev_confidence_score = 1,
          ev_timestamp = clock_a 2, ev_metadata = Creation_Meta ''a.js'' 30\<rparr>,
         \<lparr>ev_gene_id = ''G-2'', ev_content_hash = gene_hash toy_digest gene_sum,
          ev_parent_gene_id = Some ''G-1'', ev_evolution_type = duplication,
          ev_confidence_score = 95 / 100,
          ev_timestamp = clock_b 1, ev_metadata = Duplication_Meta ''a.js'' ''b.js''\<rparr>]\<rparr>"

definition call_a :: register_call where
  "call_a = \<lparr>c_gene = gene_sum, c_gene_id = ''G-1'', c_file_path = ''a.js'', c_now = clock_a\<rparr>"

definition call_b :: register_call where
  "call_b = \<lparr>c_gene = gene_sum_spaced, c_gene_id = ''G-2'', c_file_path = ''b.js'', c_now = clock_b\<rparr>"

text \<open>A gene with the given content, of type \<open>function\<close> and name \<open>f\<close>.\<close>

definition gene_of :: "string \<Rightarrow> gene_data" where
  "gene_of c = \<lparr>g_content = c, g_type = ''function'', g_name = ''f'', g_complexity = None\<rparr>"

text \<open>A row of \<open>genes\<close> that holds a well-formed function gene: the content parses, its
  type is \<open>function\<close> and its code is a string or absent.\<close>

definition function_gene :: "gene_row \<Rightarrow> bool" where
  "function_gene r =
     (case gr_content r of
        None \<Rightarrow> False
      | Some d \<Rightarrow> j_type d = Some (JString ''function'') \<and> j_code d \<noteq> Some JOther)"

text \<open>A table \<open>genes\<close> with three rows for \<open>src/app.js\<close>, a function gene at time 100, a
  full file at time 200 and a function gene at time 300, and a row of another file.\<close>

definition row_g1 :: gene_row where
  "row_g1 = \<lparr>gr_gene_id = ''GENE-1'', gr_file_path = ''src/app.js'', gr_created_at = 100,
             gr_content = Some \<lparr>j_type = Some (JString ''function''),
                                j_code = Some (JString ''function a() {}''), j_content = None\<rparr>\<rparr>"

definition row_f1 :: gene_row where
  "row_f1 = \<lparr>gr_gene_id = ''GENE-2'', gr_file_path = ''src/app.js'', gr_created_at = 200,
             gr_content = Some \<lparr>j_type = Some (JString ''full_file''), j_code = None,
                                j_content = Some (JString ''const x = 1;'')\<rparr>\<rparr>"

definition row_g2 :: gene_row where
  "row_g2 = \<lparr>gr_gene_id = ''GENE-3'', gr_file_path = ''src/app.js'', gr_created_at = 300,
             gr_content = Some \<lparr>j_type = Some (JString ''function''),
                                j_code = Some (JString ''function b() {}''), j_content = None\<rparr>\<rparr>"

definition row_other :: gene_row where
  "row_other = \<lparr>gr_gene_id = ''GENE-4'', gr_file_path = ''src/lib.js'', gr_created_at = 250,
             gr_content = None\<rparr>"

definition genes_table :: "gene_row list" where
  "genes_table = [row_g2, row_other, row_g1, row_f1]"

text \<open>A digest function of 64 characters, and three genes: one, the same with a comment
  line, other spacing and the name in lower case, and the same under another name.\<close>

definition pad_digest :: "string \<Rightarrow> digest" where
  "pad_digest s = take 64 (s @ replicate 64 (CHR ''0''))"

definition gene_add :: gene_data where
  "gene_add = \<lparr>g_content = ''return  a + b;'', g_type = ''function'', g_name = ''Sum'',
               g_complexity = None\<rparr>"

definition gene_add_commented :: gene_data where
  "gene_add_commented =
     \<lparr>g_content = ''// add'' @ [CHR 0x0A] @ ''  return a +  b; '', g_type = ''function'',
      g_name = ''sum'', g_complexity = Some 2\<rparr>"

definition gene_add_renamed :: gene_data where
  "gene_add_renamed = \<lparr>g_content = ''return  a + b;'', g_type = ''function'', g_name = ''Sun'',
               g_complexity = None\<rparr>"

text \<open>The first example call made a second time, with the store it leaves after the first,
  and the two example calls as the calls of two callers.\<close>

definition call_again :: register_call where
  "call_again = \<lparr>c_gene = gene_sum, c_gene_id = ''G-1'', c_file_path = ''a.js'', c_now = clock_b\<rparr>"

definition store_again :: store where
  "store_again =
     \<lparr>content_hashes = Map.empty(gene_hash toy_digest gene_sum \<mapsto>
        \<lparr>ch_first_seen = clock_a 0, ch_last_seen = clock_b 0, ch_occurrence_count = 2,
         ch_representative_gene_id = ''G-1'', ch_file_paths = [''a.js''],
         ch_metadata = Complexity_Meta 0\<rparr>),
      gene_evolution =
        [\<lparr>ev_gene_id = ''G-1'', ev_content_hash = gene_hash toy_digest gene_sum,
          ev_parent_gene_id = Some ''G-1'', ev_evolution_type = duplication,
          ev_confidence_score = 95 / 100,
          ev_timestamp = clock_b 1, ev_metadata = Duplication_Meta ''a.js'' ''a.js''\<rparr>]\<rparr>"

definition race_calls :: "caller \<Rightarrow> register_call" where
  "race_calls x = (case x of First \<Rightarrow> call_a | Second \<Rightarrow> call_b)"

section \<open>Normalisation: the loop computes what the specification describes\<close>

lemma startswith_prefix: "startswith s p = prefix p s"
  by (auto simp: startswith_def prefix_def) (metis append_eq_conv_conj)

lemma spec_dropped_iff: "spec_dropped l = (l = [] \<or> startswith_any l comment_prefixes)"
  by (simp add: spec_dropped_def startswith_any_def comment_prefixes_def startswith_prefix)

lemma split_ws_from_dropWhile:
  "split_ws_from [] (dropWhile is_space s) = split_ws_from [] s"
  by (induction s) auto

lemma split_ws_from_nonempty:
  "cur \<noteq> [] \<or> (\<exists>c \<in> set s. \<not> is_space c) \<Longrightarrow> split_ws_from cur s \<noteq> []"
  by (induction s arbitrary: cur) auto

lemma join_cons_nonempty: "rest \<noteq> [] \<Longrightarrow> join sep (x # rest) = x @ sep @ join sep rest"
  by (cases rest) auto

lemma join_split_ws_from:
  "s = [] \<or> \<not> is_space (last s) \<Longrightarrow> cur \<noteq> [] \<or> s = [] \<or> \<not> is_space (hd s) \<Longrightarrow>
   join '' '' (split_ws_from cur s) = cur @ spec_collapse_runs s"
proof (induction "length s" arbitrary: s cur rule: less_induct)
  case less
  note IH = less(1) and nts = less(2) and nls = less(3)
  show ?case
  proof (cases s)
    case Nil
    then show ?thesis by simp
  next
    case (Cons c cs)
    have tail: "cs = [] \<or> \<not> is_space (last cs)"
      using nts Cons by (auto split: if_splits)
    show ?thesis
    proof (cases "is_space c")
      case False
      have "join '' '' (split_ws_from (cur @ [c]) cs) = (cur @ [c]) @ spec_collapse_runs cs"
        by (rule IH) (use Cons tail in auto)
      then show ?thesis using Cons False by simp
    next
      case True
      then have cur: "cur \<noteq> []" using nls Cons by simp
      have csne: "cs \<noteq> []" and lastcs: "\<not> is_space (last cs)"
        using nts Cons True by (auto split: if_splits)
      let ?d = "dropWhile is_space cs"
      have ex: "\<exists>x \<in> set cs. \<not> is_space x"
        using csne lastcs last_in_set by blast
      then have dne: "?d \<noteq> []" by (simp add: dropWhile_eq_Nil_conv)
      have hdd: "\<not> is_space (hd ?d)" using dne hd_dropWhile by blast
      have lastd: "\<not> is_space (last ?d)"
        using dne lastcs by (metis append_is_Nil_conv last_appendR takeWhile_dropWhile_id)
      have len: "length ?d < length s"
        using Cons by (simp add: length_dropWhile_le less_Suc_eq_le)
      have "join '' '' (split_ws_from [] ?d) = [] @ spec_collapse_runs ?d"
        by (rule IH) (use len dne hdd lastd in auto)
      then have ih: "join '' '' (split_ws_from [] ?d) = spec_collapse_runs ?d" by simp
      have rest: "split_ws_from [] cs \<noteq> []"
        using ex split_ws_from_nonempty by blast
      have "join '' '' (split_ws_from cur s) = cur @ '' '' @ join '' '' (split_ws_from [] cs)"
        using Cons True cur rest by (simp add: join_cons_nonempty)
      also have "\<dots> = cur @ '' '' @ spec_collapse_runs ?d"
        using ih by (simp add: split_ws_from_dropWhile)
      finally show ?thesis using Cons True by simp
    qed
  qed
qed

lemma strip_no_outer_space: "no_outer_space (strip s)"
proof -
  let ?a = "dropWhile is_space s"
  let ?b = "dropWhile is_space (rev ?a)"
  show ?thesis
  proof (cases "?b = []")
    case True
    then show ?thesis by (simp add: no_outer_space_def strip_def)
  next
    case False
    then have l: "\<not> is_space (hd ?b)" using hd_dropWhile by blast
    have ane: "?a \<noteq> []"
    proof
      assume a: "?a = []"
      have "?b = []" unfolding a by simp
      then show False using False by blast
    qed
    then have h: "\<not> is_space (hd ?a)" using hd_dropWhile by blast
    have "last ?b = last (rev ?a)"
      using False by (metis append_is_Nil_conv last_appendR takeWhile_dropWhile_id)
    then have "last ?b = hd ?a" using ane by (simp add: last_rev)
    then have "\<not> is_space (hd (rev ?b))" using False h by (simp add: hd_rev)
    moreover have "\<not> is_space (last (rev ?b))" using False l by (simp add: last_rev)
    ultimately show ?thesis using False by (simp add: no_outer_space_def strip_def)
  qed
qed

lemma join_split_ws_strip: "join '' '' (split_ws (strip s)) = spec_collapse_runs (strip s)"
  using join_split_ws_from [of "strip s" "[]"] strip_no_outer_space [of s]
  by (auto simp: split_ws_def no_outer_space_def)

lemma normalize_loop_eq:
  "normalize_loop ls acc =
     acc @ map spec_collapse_runs (filter (\<lambda>l. \<not> spec_dropped l) (map strip ls))"
  by (induction ls arbitrary: acc) (auto simp: Let_def spec_dropped_iff join_split_ws_strip)

lemma join_split_on: "join [sep] (split_on sep s) = s"
proof (induction s)
  case Nil
  then show ?case by simp
next
  case (Cons c cs)
  show ?case
  proof (cases "split_on sep cs")
    case Nil
    then show ?thesis using Cons by simp
  next
    case (Cons w ws)
    then show ?thesis using Cons.IH by (cases ws) auto
  qed
qed

lemma split_on_no_sep: "l \<in> set (split_on sep s) \<Longrightarrow> sep \<notin> set l"
  by (induction s arbitrary: l) (auto split: if_splits list.splits)

lemma strip_decomp:
  "\<exists>a b. l = a @ strip l @ b \<and> (\<forall>c \<in> set a. is_space c) \<and> (\<forall>c \<in> set b. is_space c)"
proof -
  let ?a = "takeWhile is_space l"
  let ?m = "dropWhile is_space l"
  let ?b = "rev (takeWhile is_space (rev ?m))"
  have "rev ?m = takeWhile is_space (rev ?m) @ dropWhile is_space (rev ?m)" by simp
  then have "?m = strip l @ ?b"
    unfolding strip_def by (metis rev_append rev_rev_ident)
  then have "l = ?a @ strip l @ ?b" by (metis takeWhile_dropWhile_id)
  moreover have "\<forall>c \<in> set ?a. is_space c" by (auto dest: set_takeWhileD)
  moreover have "\<forall>c \<in> set ?b. is_space c" by (auto dest: set_takeWhileD)
  ultimately show ?thesis by blast
qed


text \<open>
  Claim C8. For every input text, \<open>normalize_content\<close> splits the text at newlines (the
  pieces joined by newlines give the text back and hold no newline), trims the whitespace
  at both ends of each line (what is cut off is whitespace only and what is left has none
  at either end), drops each line that is empty after trimming or whose trimmed form begins
  with \<open>#\<close>, \<open>//\<close>, \<open>/*\<close> or \<open>*\<close> (so also a line of code that begins with \<open>*\<close>),
  collapses each run of whitespace in a surviving line to one space, and joins the
  surviving lines in their order with newlines. The result is a function of the text alone.
\<close>

theorem normalize_content_spec:
  "normalize_content text = spec_normalize text
   \<and> join [CHR 0x0A] (split_on (CHR 0x0A) text) = text
   \<and> (\<forall>l \<in> set (split_on (CHR 0x0A) text). CHR 0x0A \<notin> set l)
   \<and> (\<forall>l. no_outer_space (strip l)
          \<and> (\<exists>a b. l = a @ strip l @ b
                 \<and> (\<forall>c \<in> set a. is_space c) \<and> (\<forall>c \<in> set b. is_space c)))
   \<and> (\<forall>l. prefix ''*'' l \<longrightarrow> spec_dropped l)"
proof -
  have "normalize_content text = spec_normalize text"
    by (simp add: normalize_content_def spec_normalize_def normalize_loop_eq)
  moreover have "\<forall>l \<in> set (split_on (CHR 0x0A) text). CHR 0x0A \<notin> set l"
    using split_on_no_sep by blast
  moreover have "\<forall>l. prefix ''*'' l \<longrightarrow> spec_dropped l"
    by (simp add: spec_dropped_def)
  ultimately show ?thesis
    using join_split_on strip_no_outer_space strip_decomp by blast
qed

text \<open>An instance with a comment line, a line of code beginning with \<open>*\<close>, an empty
  line and a tab.\<close>

theorem normalize_content_spec_witness:
  "spec_normalize (''  int   x =  1;  '' @ [CHR 0x0A] @ ''# note'' @ [CHR 0x0A] @ ''* 2''
                    @ [CHR 0x0A, CHR 0x0A] @ [CHR 0x09] @ ''y'')
     = ''int x = 1;'' @ [CHR 0x0A] @ ''y''
   \<and> prefix ''*'' ''* 2'' \<and> spec_dropped ''* 2''"
proof -
  let ?t = "''  int   x =  1;  '' @ [CHR 0x0A] @ ''# note'' @ [CHR 0x0A] @ ''* 2''
                    @ [CHR 0x0A, CHR 0x0A] @ [CHR 0x09] @ ''y''"
  have "normalize_content ?t = ''int x = 1;'' @ [CHR 0x0A] @ ''y''"
    by code_simp
  moreover have "prefix ''*'' ''* 2''" by simp
  ultimately show ?thesis using normalize_content_spec [of ?t] by auto
qed

section \<open>Content hash: a function of the normalised content, the type and the lowered name\<close>

lemma of_char_lower_char:
  "(of_char (lower_char c) :: nat) = (if spec_upper c then of_char c + 32 else of_char c)"
proof -
  have "(of_char c :: nat) \<le> 222 \<Longrightarrow> (of_char c + 32) mod 256 = (of_char c + 32 :: nat)"
    by simp
  then show ?thesis
    by (auto simp: lower_char_def spec_upper_def Let_def)
qed

lemma lower_char_eq_iff: "(lower_char a = lower_char b) = spec_same_letter a b"
proof -
  have "(lower_char a = lower_char b)
      = ((of_char (lower_char a) :: nat) = of_char (lower_char b))"
    by simp
  also have "\<dots> = spec_same_letter a b"
    unfolding of_char_lower_char spec_same_letter_def
    by (auto simp: spec_upper_def Let_def) 
  finally show ?thesis .
qed

lemma lower_eq_iff: "(lower n1 = lower n2) = spec_same_name n1 n2"
proof (induction n1 arbitrary: n2)
  case Nil
  then show ?case by (auto simp: lower_def spec_same_name_def)
next
  case (Cons a n1)
  show ?case
  proof (cases n2)
    case Nil
    then show ?thesis by (simp add: lower_def spec_same_name_def)
  next
    case (Cons b n2')
    then show ?thesis
      using Cons.IH [of n2'] by (simp add: lower_def spec_same_name_def lower_char_eq_iff)
  qed
qed

lemma lower_no_upper: "list_all (\<lambda>c. \<not> spec_upper c) (lower name)"
proof -
  have "\<not> spec_upper (lower_char c)" for c
  proof -
    have "(of_char (lower_char c) :: nat) = (if spec_upper c then of_char c + 32 else of_char c)"
      by (rule of_char_lower_char)
    then show ?thesis
      unfolding spec_upper_def Let_def by (auto split: if_splits)
  qed
  then show ?thesis by (simp add: lower_def list_all_iff)
qed

lemma normalize_content_eq_spec: "normalize_content text = spec_normalize text"
  by (simp add: normalize_content_def spec_normalize_def normalize_loop_eq)

lemma gene_hash_composite: "gene_hash sha256_hex g = sha256_hex (spec_composite g)"
  by (simp add: gene_hash_def calculate_content_hash_def spec_composite_def
      normalize_content_eq_spec)

lemma hash_eq_iff_composite:
  "no_collision sha256_hex g1 g2 \<Longrightarrow>
   (gene_hash sha256_hex g1 = gene_hash sha256_hex g2) = (spec_composite g1 = spec_composite g2)"
  by (auto simp: gene_hash_composite no_collision_def)

text \<open>
  Claim C9. The fingerprint of a gene is the digest of exactly the composite string
  \<open>normalize(content) + "::" + type + "::" + lowercase(name)\<close>, where the normalised
  content is the one the specification describes and the lowered name holds no upper-case
  letter. It is a function of the content, the type and the name alone, so two evaluations
  agree, and two genes with equal normalised content, equal type and names that are the
  same without regard to case have the same fingerprint. The fingerprint depends on each
  of the three: when the digest function does not collide on the two composite strings, two
  genes that agree in two of content, type and name have the same fingerprint exactly when
  they agree in the third, up to normalisation for the content and up to case for the name.
  With a digest function that returns 64 hexadecimal digits (256 bits), the fingerprint has
  64 digits.
\<close>

theorem calculate_content_hash_deterministic:
  "calculate_content_hash sha256_hex content gene_type name
     = sha256_hex (spec_normalize content @ ''::'' @ gene_type @ ''::'' @ lower name)
   \<and> list_all (\<lambda>c. \<not> spec_upper c) (lower name)
   \<and> gene_hash sha256_hex g1 = sha256_hex (spec_composite g1)
   \<and> (spec_normalize (g_content g1) = spec_normalize (g_content g2)
        \<and> g_type g1 = g_type g2 \<and> spec_same_name (g_name g1) (g_name g2)
      \<longrightarrow> gene_hash sha256_hex g1 = gene_hash sha256_hex g2)
   \<and> (no_collision sha256_hex g1 g2 \<longrightarrow>
        (g_content g1 = g_content g2 \<and> g_type g1 = g_type g2 \<longrightarrow>
           (gene_hash sha256_hex g1 = gene_hash sha256_hex g2)
             = spec_same_name (g_name g1) (g_name g2))
      \<and> (g_type g1 = g_type g2 \<and> g_name g1 = g_name g2 \<longrightarrow>
           (gene_hash sha256_hex g1 = gene_hash sha256_hex g2)
             = (spec_normalize (g_content g1) = spec_normalize (g_content g2)))
      \<and> (g_content g1 = g_content g2 \<and> g_name g1 = g_name g2 \<longrightarrow>
           (gene_hash sha256_hex g1 = gene_hash sha256_hex g2) = (g_type g1 = g_type g2)))
   \<and> ((\<forall>s. length (sha256_hex s) = 64) \<longrightarrow> length (gene_hash sha256_hex g1) = 64)"
proof -
  have form: "calculate_content_hash sha256_hex content gene_type name
     = sha256_hex (spec_normalize content @ ''::'' @ gene_type @ ''::'' @ lower name)"
    by (simp add: calculate_content_hash_def normalize_content_eq_spec)
  have same: "spec_normalize (g_content g1) = spec_normalize (g_content g2)
        \<and> g_type g1 = g_type g2 \<and> spec_same_name (g_name g1) (g_name g2)
      \<longrightarrow> gene_hash sha256_hex g1 = gene_hash sha256_hex g2"
    by (simp add: gene_hash_composite spec_composite_def lower_eq_iff [symmetric])
  have differ: "no_collision sha256_hex g1 g2 \<longrightarrow>
        (g_content g1 = g_content g2 \<and> g_type g1 = g_type g2 \<longrightarrow>
           (gene_hash sha256_hex g1 = gene_hash sha256_hex g2)
             = spec_same_name (g_name g1) (g_name g2))
      \<and> (g_type g1 = g_type g2 \<and> g_name g1 = g_name g2 \<longrightarrow>
           (gene_hash sha256_hex g1 = gene_hash sha256_hex g2)
             = (spec_normalize (g_content g1) = spec_normalize (g_content g2)))
      \<and> (g_content g1 = g_content g2 \<and> g_name g1 = g_name g2 \<longrightarrow>
           (gene_hash sha256_hex g1 = gene_hash sha256_hex g2) = (g_type g1 = g_type g2))"
  proof
    assume nc: "no_collision sha256_hex g1 g2"
    show "(g_content g1 = g_content g2 \<and> g_type g1 = g_type g2 \<longrightarrow>
           (gene_hash sha256_hex g1 = gene_hash sha256_hex g2)
             = spec_same_name (g_name g1) (g_name g2))
      \<and> (g_type g1 = g_type g2 \<and> g_name g1 = g_name g2 \<longrightarrow>
           (gene_hash sha256_hex g1 = gene_hash sha256_hex g2)
             = (spec_normalize (g_content g1) = spec_normalize (g_content g2)))
      \<and> (g_content g1 = g_content g2 \<and> g_name g1 = g_name g2 \<longrightarrow>
           (gene_hash sha256_hex g1 = gene_hash sha256_hex g2) = (g_type g1 = g_type g2))"
      unfolding hash_eq_iff_composite [OF nc] spec_composite_def lower_eq_iff [symmetric]
      by auto
  qed
  have width: "(\<forall>s. length (sha256_hex s) = 64) \<longrightarrow> length (gene_hash sha256_hex g1) = 64"
    by (simp add: gene_hash_composite)
  show ?thesis
    using form lower_no_upper gene_hash_composite same differ width by blast
qed

text \<open>Two genes that differ in spacing, in a comment line, in the case of the name and
  in their complexity have the same fingerprint; a gene under another name has another
  one.\<close>

theorem calculate_content_hash_deterministic_witness:
  "gene_hash toy_digest gene_add = ''return a + b;::function::sum''
   \<and> spec_normalize (g_content gene_add) = spec_normalize (g_content gene_add_commented)
   \<and> g_type gene_add = g_type gene_add_commented
   \<and> spec_same_name (g_name gene_add) (g_name gene_add_commented)
   \<and> gene_hash toy_digest gene_add = gene_hash toy_digest gene_add_commented
   \<and> toy_digest (spec_composite gene_add) \<noteq> toy_digest (spec_composite gene_add_renamed)
   \<and> g_content gene_add = g_content gene_add_renamed
   \<and> g_type gene_add = g_type gene_add_renamed
   \<and> \<not> spec_same_name (g_name gene_add) (g_name gene_add_renamed)
   \<and> gene_hash toy_digest gene_add \<noteq> gene_hash toy_digest gene_add_renamed
   \<and> length (gene_hash pad_digest gene_add) = 64"
proof -
  note spec = calculate_content_hash_deterministic
  have n0: "normalize_content (g_content gene_add) = ''return a + b;''"
    by code_simp
  have n1: "normalize_content (g_content gene_add_commented) = ''return a + b;''"
    by code_simp
  have l0: "lower (g_name gene_add) = ''sum''" by code_simp
  have s0: "spec_normalize (g_content gene_add) = ''return a + b;''"
    using n0 by (simp add: normalize_content_eq_spec)
  have s1: "spec_normalize (g_content gene_add_commented) = ''return a + b;''"
    using n1 by (simp add: normalize_content_eq_spec)
  have c: "spec_composite gene_add = ''return a + b;::function::sum''"
    using s0 l0 by (simp add: spec_composite_def gene_add_def)
  have v: "gene_hash toy_digest gene_add = ''return a + b;::function::sum''"
    using spec [of toy_digest "[]" "[]" "[]" gene_add gene_add] c by (simp add: toy_digest_def)
  have t: "g_type gene_add = g_type gene_add_commented"
    by (simp add: gene_add_def gene_add_commented_def)
  have sn: "spec_same_name (g_name gene_add) (g_name gene_add_commented)"
    by (simp add: gene_add_def gene_add_commented_def spec_same_name_def spec_same_letter_def
        spec_upper_def)
  have s01: "spec_normalize (g_content gene_add) = spec_normalize (g_content gene_add_commented)"
    using s0 s1 by simp
  have eq: "gene_hash toy_digest gene_add = gene_hash toy_digest gene_add_commented"
    using spec [of toy_digest "[]" "[]" "[]" gene_add gene_add_commented] s01 t sn by blast
  have nc: "no_collision toy_digest gene_add gene_add_renamed"
    by (simp add: no_collision_def toy_digest_def)
  have c2: "g_content gene_add = g_content gene_add_renamed"
    by (simp add: gene_add_def gene_add_renamed_def)
  have t2: "g_type gene_add = g_type gene_add_renamed"
    by (simp add: gene_add_def gene_add_renamed_def)
  have ns: "\<not> spec_same_name (g_name gene_add) (g_name gene_add_renamed)"
    by (simp add: gene_add_def gene_add_renamed_def spec_same_name_def spec_same_letter_def
        spec_upper_def)
  have ne: "gene_hash toy_digest gene_add \<noteq> gene_hash toy_digest gene_add_renamed"
    using spec [of toy_digest "[]" "[]" "[]" gene_add gene_add_renamed] nc c2 t2 ns by blast
  have len: "\<forall>s. length (pad_digest s) = 64" by (simp add: pad_digest_def min_def)
  have w: "length (gene_hash pad_digest gene_add) = 64"
    using spec [of pad_digest "[]" "[]" "[]" gene_add gene_add] len by blast
  have cd: "toy_digest (spec_composite gene_add) \<noteq> toy_digest (spec_composite gene_add_renamed)"
    using ne by (simp add: gene_hash_composite)
  show ?thesis using v s01 t sn eq cd c2 t2 ns ne w by blast
qed

section \<open>register\_gene: what one call does\<close>

lemma register_gene_new:
  assumes "content_hashes db (gene_hash sha256_hex g) = None"
    and "gene_id \<notin> set (map ev_gene_id (gene_evolution db))"
  shows "register_gene sha256_hex now db g gene_id file_path =
     Inr (\<lparr>r_is_duplicate = False, r_representative_gene_id = None, r_occurrence_count = None,
           r_gene_id = Some gene_id, r_action = created_new\<rparr>,
          \<lparr>content_hashes = (content_hashes db)(gene_hash sha256_hex g \<mapsto>
              \<lparr>ch_first_seen = now 0, ch_last_seen = now 1, ch_occurrence_count = 1,
               ch_representative_gene_id = gene_id, ch_file_paths = [file_path],
               ch_metadata = Complexity_Meta (case g_complexity g of None \<Rightarrow> 0 | Some c \<Rightarrow> c)\<rparr>),
           gene_evolution = gene_evolution db @
             [\<lparr>ev_gene_id = gene_id, ev_content_hash = gene_hash sha256_hex g,
               ev_parent_gene_id = None, ev_evolution_type = creation, ev_confidence_score = 1,
               ev_timestamp = now 2,
               ev_metadata = Creation_Meta file_path (int (length (g_content g)))\<rparr>]\<rparr>)"
  using assms by (simp add: register_gene_def insert_evolution_def Let_def)

lemma register_gene_clash:
  assumes "content_hashes db (gene_hash sha256_hex g) = None"
    and "gene_id \<in> set (map ev_gene_id (gene_evolution db))"
  shows "register_gene sha256_hex now db g gene_id file_path = Inl IntegrityError"
  using assms by (simp add: register_gene_def insert_evolution_def Let_def)

lemma register_gene_existing:
  assumes "content_hashes db (gene_hash sha256_hex g) = Some existing"
  shows "register_gene sha256_hex now db g gene_id file_path =
     Inr (\<lparr>r_is_duplicate = True,
           r_representative_gene_id = Some (ch_representative_gene_id existing),
           r_occurrence_count = Some (ch_occurrence_count existing + 1),
           r_gene_id = None, r_action = linked_to_existing\<rparr>,
          \<lparr>content_hashes = (content_hashes db)(gene_hash sha256_hex g \<mapsto>
              existing\<lparr>ch_last_seen := now 0,
                        ch_occurrence_count := ch_occurrence_count existing + 1,
                        ch_file_paths :=
                          (if file_path \<in> set (ch_file_paths existing) then ch_file_paths existing
                           else ch_file_paths existing @ [file_path])\<rparr>),
           gene_evolution =
             filter (\<lambda>r. ev_gene_id r \<noteq> gene_id) (gene_evolution db) @
             [\<lparr>ev_gene_id = gene_id, ev_content_hash = gene_hash sha256_hex g,
               ev_parent_gene_id = Some (ch_representative_gene_id existing),
               ev_evolution_type = duplication, ev_confidence_score = 95 / 100,
               ev_timestamp = now 1,
               ev_metadata = Duplication_Meta (hd (ch_file_paths existing @ [file_path])) file_path\<rparr>]\<rparr>)"
proof (cases "ch_file_paths existing")
  case Nil
  then show ?thesis using assms
    by (simp add: register_gene_def insert_or_replace_evolution_def Let_def)
next
  case (Cons p ps)
  then show ?thesis using assms
    by (simp add: register_gene_def insert_or_replace_evolution_def Let_def)
qed

lemma filter_fresh:
  "gene_id \<notin> set (map ev_gene_id rows) \<Longrightarrow> filter (\<lambda>r. ev_gene_id r \<noteq> gene_id) rows = rows"
  by (induction rows) auto

lemma register_gene_success_cases:
  assumes "register_gene sha256_hex now db g gene_id file_path = Inr (res, db')"
  obtains (new) "content_hashes db (gene_hash sha256_hex g) = None"
      "gene_id \<notin> set (map ev_gene_id (gene_evolution db))"
    | (existing) existing where "content_hashes db (gene_hash sha256_hex g) = Some existing"
proof (cases "content_hashes db (gene_hash sha256_hex g)")
  case None
  then have "gene_id \<notin> set (map ev_gene_id (gene_evolution db))"
    using assms register_gene_clash [of db sha256_hex g gene_id now file_path] by auto
  then show ?thesis using None new by blast
next
  case (Some a)
  then show ?thesis using existing by blast
qed

lemma register_gene_ledger:
  assumes "register_gene sha256_hex now db g gene_id file_path = Inr (res, db')"
  shows "\<exists>row. ev_gene_id row = gene_id \<and>
           gene_evolution db' = filter (\<lambda>r. ev_gene_id r \<noteq> gene_id) (gene_evolution db) @ [row]"
  using assms
proof (cases rule: register_gene_success_cases)
  case new
  then show ?thesis
    using assms register_gene_new [of db sha256_hex g gene_id now file_path]
    by (auto simp: filter_fresh)
next
  case (existing e)
  then show ?thesis
    using assms register_gene_existing [of db sha256_hex g e now gene_id file_path]
    by auto
qed

lemma register_gene_keeps_rows:
  assumes "register_gene sha256_hex now db g gene_id file_path = Inr (res, db')"
    and "content_hashes db h = Some r"
  shows "\<exists>r'. content_hashes db' h = Some r'
           \<and> ch_first_seen r' = ch_first_seen r
           \<and> ch_representative_gene_id r' = ch_representative_gene_id r
           \<and> ch_metadata r' = ch_metadata r
           \<and> ch_occurrence_count r \<le> ch_occurrence_count r'
           \<and> set (ch_file_paths r) \<subseteq> set (ch_file_paths r')
           \<and> (h \<noteq> gene_hash sha256_hex g \<longrightarrow> r' = r)"
  using assms(1)
proof (cases rule: register_gene_success_cases)
  case new
  then show ?thesis
    using assms register_gene_new [of db sha256_hex g gene_id now file_path]
    by auto
next
  case (existing e)
  then show ?thesis
    using assms register_gene_existing [of db sha256_hex g e now gene_id file_path]
    by auto
qed

lemma register_gene_replaces:
  assumes "register_gene sha256_hex now db g gene_id file_path = Inr (res, db')"
    and "gene_id \<in> set (map ev_gene_id (gene_evolution db))"
  shows "\<exists>ex. content_hashes db (gene_hash sha256_hex g) = Some ex
          \<and> gene_evolution db' =
              filter (\<lambda>r. ev_gene_id r \<noteq> gene_id) (gene_evolution db) @
              [\<lparr>ev_gene_id = gene_id, ev_content_hash = gene_hash sha256_hex g,
                ev_parent_gene_id = Some (ch_representative_gene_id ex),
                ev_evolution_type = duplication, ev_confidence_score = 95 / 100,
                ev_timestamp = now 1,
                ev_metadata = Duplication_Meta (hd (ch_file_paths ex @ [file_path])) file_path\<rparr>]"
  using assms(1)
proof (cases rule: register_gene_success_cases)
  case new
  then show ?thesis using assms(2) by simp
next
  case (existing e)
  then show ?thesis
    using assms(1) register_gene_existing [of db sha256_hex g e now gene_id file_path]
    by auto
qed

lemma register_gene_records_path:
  assumes "register_gene sha256_hex now db g gene_id file_path = Inr (res, db')"
  shows "\<exists>r. content_hashes db' (gene_hash sha256_hex g) = Some r \<and> file_path \<in> set (ch_file_paths r)"
  using assms
proof (cases rule: register_gene_success_cases)
  case new
  then show ?thesis
    using assms register_gene_new [of db sha256_hex g gene_id now file_path] by auto
next
  case (existing e)
  then show ?thesis
    using assms register_gene_existing [of db sha256_hex g e now gene_id file_path] by auto
qed

lemma register_gene_ids_kept:
  assumes "register_gene sha256_hex now db g gene_id file_path = Inr (res, db')"
  shows "set (map ev_gene_id (gene_evolution db')) = insert gene_id (set (map ev_gene_id (gene_evolution db)))"
proof -
  obtain row where "ev_gene_id row = gene_id"
    and "gene_evolution db' = filter (\<lambda>r. ev_gene_id r \<noteq> gene_id) (gene_evolution db) @ [row]"
    using register_gene_ledger [OF assms] by blast
  then show ?thesis by auto
qed

subsection \<open>The two example registrations\<close>

lemma first_registration:
  "register_gene toy_digest clock_a empty_store gene_sum ''G-1'' ''a.js'' =
     Inr (\<lparr>r_is_duplicate = False, r_representative_gene_id = None, r_occurrence_count = None,
           r_gene_id = Some ''G-1'', r_action = created_new\<rparr>, store_one)"
  by (simp add: register_gene_new empty_store_def store_one_def gene_sum_def)

lemma hash_other: "gene_hash toy_digest gene_other \<noteq> gene_hash toy_digest gene_sum"
  by (simp add: gene_hash_def calculate_content_hash_def toy_digest_def gene_other_def gene_sum_def lower_def)

lemma hash_spaced: "gene_hash sha256_hex gene_sum_spaced = gene_hash sha256_hex gene_sum"
proof -
  have "normalize_content (g_content gene_sum_spaced) = normalize_content (g_content gene_sum)"
    by code_simp
  then show ?thesis
    by (simp add: gene_hash_def calculate_content_hash_def gene_sum_spaced_def gene_sum_def)
qed

lemma store_one_row:
  "content_hashes store_one (gene_hash toy_digest gene_sum) =
     Some \<lparr>ch_first_seen = clock_a 0, ch_last_seen = clock_a 1, ch_occurrence_count = 1,
         ch_representative_gene_id = ''G-1'', ch_file_paths = [''a.js''],
         ch_metadata = Complexity_Meta 0\<rparr>"
  by (simp add: store_one_def)

lemma second_registration:
  "register_gene toy_digest clock_b store_one gene_sum_spaced ''G-2'' ''b.js'' =
     Inr (\<lparr>r_is_duplicate = True, r_representative_gene_id = Some ''G-1'',
           r_occurrence_count = Some 2, r_gene_id = None, r_action = linked_to_existing\<rparr>, store_two)"
proof -
  have c: "content_hashes store_one (gene_hash toy_digest gene_sum_spaced) =
     Some \<lparr>ch_first_seen = clock_a 0, ch_last_seen = clock_a 1, ch_occurrence_count = 1,
         ch_representative_gene_id = ''G-1'', ch_file_paths = [''a.js''],
         ch_metadata = Complexity_Meta 0\<rparr>"
    using store_one_row by (simp add: hash_spaced)
  show ?thesis
    unfolding register_gene_existing [OF c]
    by (simp add: hash_spaced store_two_def store_one_def)
qed

lemma registration_again:
  "register_gene toy_digest clock_b store_one gene_sum ''G-1'' ''a.js'' =
     Inr (\<lparr>r_is_duplicate = True, r_representative_gene_id = Some ''G-1'',
           r_occurrence_count = Some 2, r_gene_id = None, r_action = linked_to_existing\<rparr>, store_again)"
  unfolding register_gene_existing [OF store_one_row]
  by (simp add: store_again_def store_one_def)

lemma one_registration_again:
  "register_all toy_digest store_one [call_again] = Inr store_again"
  by (simp add: call_again_def registration_again)

lemma two_registrations: "register_all toy_digest empty_store [call_a, call_b] = Inr store_two"
  by (simp add: call_a_def call_b_def first_registration second_registration)

text \<open>
  Claim C1, as the code has it. When the fingerprint of the gene is not in the store and
  the gene id is not in the ledger, \<open>register_gene\<close> inserts a row with
  \<open>occurrence_count = 1\<close> and \<open>representative_gene_id = gene_id\<close>, appends a creation
  record with confidence 1 and no parent, and returns the keys \<open>is_duplicate = False\<close>,
  \<open>gene_id\<close> and \<open>action = created_new\<close>; the result has no key
  \<open>representative_gene_id\<close> and no key \<open>occurrence_count\<close>. When the fingerprint is in the
  store, it adds the path to the path list if it is absent, adds one to
  \<open>occurrence_count\<close>, sets \<open>last_seen\<close>, writes a duplication record with the
  representative as parent and confidence 0.95 at the end of the ledger in place of any
  record of the same gene id (so the record is appended when the gene id is new), and
  returns \<open>is_duplicate = True\<close>, the representative, the new count and
  \<open>action = linked_to_existing\<close>.
\<close>

theorem register_gene_result:
  "(content_hashes db (gene_hash sha256_hex g) = None
      \<and> gene_id \<notin> set (map ev_gene_id (gene_evolution db)) \<longrightarrow>
    register_gene sha256_hex now db g gene_id file_path =
     Inr (\<lparr>r_is_duplicate = False, r_representative_gene_id = None, r_occurrence_count = None,
           r_gene_id = Some gene_id, r_action = created_new\<rparr>,
          \<lparr>content_hashes = (content_hashes db)(gene_hash sha256_hex g \<mapsto>
              \<lparr>ch_first_seen = now 0, ch_last_seen = now 1, ch_occurrence_count = 1,
               ch_representative_gene_id = gene_id, ch_file_paths = [file_path],
               ch_metadata = Complexity_Meta (case g_complexity g of None \<Rightarrow> 0 | Some c \<Rightarrow> c)\<rparr>),
           gene_evolution = gene_evolution db @
             [\<lparr>ev_gene_id = gene_id, ev_content_hash = gene_hash sha256_hex g,
               ev_parent_gene_id = None, ev_evolution_type = creation, ev_confidence_score = 1,
               ev_timestamp = now 2,
               ev_metadata = Creation_Meta file_path (int (length (g_content g)))\<rparr>]\<rparr>))
   \<and> (content_hashes db (gene_hash sha256_hex g) = Some existing \<longrightarrow>
    register_gene sha256_hex now db g gene_id file_path =
     Inr (\<lparr>r_is_duplicate = True,
           r_representative_gene_id = Some (ch_representative_gene_id existing),
           r_occurrence_count = Some (ch_occurrence_count existing + 1),
           r_gene_id = None, r_action = linked_to_existing\<rparr>,
          \<lparr>content_hashes = (content_hashes db)(gene_hash sha256_hex g \<mapsto>
              existing\<lparr>ch_last_seen := now 0,
                        ch_occurrence_count := ch_occurrence_count existing + 1,
                        ch_file_paths :=
                          (if file_path \<in> set (ch_file_paths existing) then ch_file_paths existing
                           else ch_file_paths existing @ [file_path])\<rparr>),
           gene_evolution =
             filter (\<lambda>r. ev_gene_id r \<noteq> gene_id) (gene_evolution db) @
             [\<lparr>ev_gene_id = gene_id, ev_content_hash = gene_hash sha256_hex g,
               ev_parent_gene_id = Some (ch_representative_gene_id existing),
               ev_evolution_type = duplication, ev_confidence_score = 95 / 100,
               ev_timestamp = now 1,
               ev_metadata = Duplication_Meta (hd (ch_file_paths existing @ [file_path])) file_path\<rparr>]\<rparr>))
   \<and> (gene_id \<notin> set (map ev_gene_id (gene_evolution db)) \<longrightarrow>
        filter (\<lambda>r. ev_gene_id r \<noteq> gene_id) (gene_evolution db) = gene_evolution db)"
  using register_gene_new [of db sha256_hex g gene_id now file_path]
    register_gene_existing [of db sha256_hex g existing now gene_id file_path]
    filter_fresh [of gene_id "gene_evolution db"]
  by blast

text \<open>Both branches at the example registrations.\<close>

theorem register_gene_result_witness:
  "register_gene toy_digest clock_a empty_store gene_sum ''G-1'' ''a.js'' =
     Inr (\<lparr>r_is_duplicate = False, r_representative_gene_id = None, r_occurrence_count = None,
           r_gene_id = Some ''G-1'', r_action = created_new\<rparr>, store_one)
   \<and> map_sum id fst (register_gene toy_digest clock_b store_one gene_sum ''G-2'' ''b.js'') =
     Inr \<lparr>r_is_duplicate = True, r_representative_gene_id = Some ''G-1'',
          r_occurrence_count = Some 2, r_gene_id = None, r_action = linked_to_existing\<rparr>"
proof -
  have a: "content_hashes empty_store (gene_hash toy_digest gene_sum) = None"
    by (simp add: empty_store_def)
  have b: "''G-1'' \<notin> set (map ev_gene_id (gene_evolution empty_store))"
    by (simp add: empty_store_def)
  have c: "content_hashes store_one (gene_hash toy_digest gene_sum) =
     Some \<lparr>ch_first_seen = clock_a 0, ch_last_seen = clock_a 1, ch_occurrence_count = 1,
         ch_representative_gene_id = ''G-1'', ch_file_paths = [''a.js''],
         ch_metadata = Complexity_Meta 0\<rparr>"
    by (simp add: store_one_def)
  have 1: "register_gene toy_digest clock_a empty_store gene_sum ''G-1'' ''a.js'' =
     Inr (\<lparr>r_is_duplicate = False, r_representative_gene_id = None, r_occurrence_count = None,
           r_gene_id = Some ''G-1'', r_action = created_new\<rparr>, store_one)"
    using register_gene_result [of empty_store toy_digest gene_sum "''G-1''" clock_a "''a.js''"] a b
    by (simp add: empty_store_def store_one_def gene_sum_def)
  have 2: "map_sum id fst (register_gene toy_digest clock_b store_one gene_sum ''G-2'' ''b.js'') =
     Inr \<lparr>r_is_duplicate = True, r_representative_gene_id = Some ''G-1'',
          r_occurrence_count = Some 2, r_gene_id = None, r_action = linked_to_existing\<rparr>"
    using register_gene_result [of store_one toy_digest gene_sum "''G-2''" clock_b "''b.js''"
        "\<lparr>ch_first_seen = clock_a 0, ch_last_seen = clock_a 1, ch_occurrence_count = 1,
         ch_representative_gene_id = ''G-1'', ch_file_paths = [''a.js''],
         ch_metadata = Complexity_Meta 0\<rparr>"] c
    by simp
  show ?thesis using 1 2 by blast
qed

text \<open>
  The claim as stated fails. The first registration in the empty store returns a result
  without \<open>representative_gene_id\<close> and without \<open>occurrence_count\<close>; and a gene with a new
  fingerprint under a gene id that the ledger already holds raises
  \<open>sqlite3.IntegrityError\<close> instead of inserting anything.
\<close>

theorem register_gene_result_counterexample:
  "register_gene toy_digest clock_a empty_store gene_sum ''G-1'' ''a.js'' =
     Inr (\<lparr>r_is_duplicate = False, r_representative_gene_id = None, r_occurrence_count = None,
           r_gene_id = Some ''G-1'', r_action = created_new\<rparr>, store_one)
   \<and> content_hashes store_one (gene_hash toy_digest gene_other) = None
   \<and> register_gene toy_digest clock_b store_one gene_other ''G-1'' ''b.js'' = Inl IntegrityError"
proof -
  have n: "content_hashes store_one (gene_hash toy_digest gene_other) = None"
    using hash_other by (simp add: store_one_def)
  have "register_gene toy_digest clock_b store_one gene_other ''G-1'' ''b.js'' = Inl IntegrityError"
    by (rule register_gene_clash [OF n]) (simp add: store_one_def)
  then show ?thesis using n first_registration by simp
qed

section \<open>register\_gene: a second call with the same gene id and path\<close>

text \<open>
  Claim C5, as the code has it. A second \<open>register_gene\<close> with the gene, gene id and path
  of a call that succeeded is not a no-op: it succeeds, returns
  \<open>action = linked_to_existing\<close>, adds one to \<open>occurrence_count\<close> of the fingerprint's row,
  sets its \<open>last_seen\<close>, leaves its path list, its representative and every other row as
  they are, and puts a duplication record for the gene id at the end of the ledger in place
  of the record the first call wrote. The store after the second call differs from the
  store before it.
\<close>

theorem register_gene_resubmission:
  assumes "register_gene sha256_hex now db g gene_id file_path = Inr (res, db')"
  shows "\<exists>r res2 db2.
           content_hashes db' (gene_hash sha256_hex g) = Some r
         \<and> register_gene sha256_hex now2 db' g gene_id file_path = Inr (res2, db2)
         \<and> res2 = \<lparr>r_is_duplicate = True,
                   r_representative_gene_id = Some (ch_representative_gene_id r),
                   r_occurrence_count = Some (ch_occurrence_count r + 1),
                   r_gene_id = None, r_action = linked_to_existing\<rparr>
         \<and> content_hashes db2 =
             (content_hashes db')(gene_hash sha256_hex g \<mapsto>
                r\<lparr>ch_last_seen := now2 0, ch_occurrence_count := ch_occurrence_count r + 1\<rparr>)
         \<and> gene_evolution db2 =
             filter (\<lambda>e. ev_gene_id e \<noteq> gene_id) (gene_evolution db') @
             [\<lparr>ev_gene_id = gene_id, ev_content_hash = gene_hash sha256_hex g,
               ev_parent_gene_id = Some (ch_representative_gene_id r),
               ev_evolution_type = duplication, ev_confidence_score = 95 / 100,
               ev_timestamp = now2 1,
               ev_metadata = Duplication_Meta (hd (ch_file_paths r)) file_path\<rparr>]
         \<and> db2 \<noteq> db'"
proof -
  obtain r where r: "content_hashes db' (gene_hash sha256_hex g) = Some r"
    and p: "file_path \<in> set (ch_file_paths r)"
    using register_gene_records_path [OF assms] by blast
  from p have ne: "ch_file_paths r \<noteq> []" by auto
  let ?row = "r\<lparr>ch_last_seen := now2 0, ch_occurrence_count := ch_occurrence_count r + 1\<rparr>"
  let ?res2 = "\<lparr>r_is_duplicate = True,
                   r_representative_gene_id = Some (ch_representative_gene_id r),
                   r_occurrence_count = Some (ch_occurrence_count r + 1),
                   r_gene_id = None, r_action = linked_to_existing\<rparr>"
  let ?db2 = "\<lparr>content_hashes = (content_hashes db')(gene_hash sha256_hex g \<mapsto> ?row),
              gene_evolution =
             filter (\<lambda>e. ev_gene_id e \<noteq> gene_id) (gene_evolution db') @
             [\<lparr>ev_gene_id = gene_id, ev_content_hash = gene_hash sha256_hex g,
               ev_parent_gene_id = Some (ch_representative_gene_id r),
               ev_evolution_type = duplication, ev_confidence_score = 95 / 100,
               ev_timestamp = now2 1,
               ev_metadata = Duplication_Meta (hd (ch_file_paths r)) file_path\<rparr>]\<rparr>"
  have call: "register_gene sha256_hex now2 db' g gene_id file_path = Inr (?res2, ?db2)"
    using register_gene_existing [OF r, of now2 gene_id file_path] p ne by simp
  have "ch_occurrence_count ?row \<noteq> ch_occurrence_count r" by simp
  then have "?row \<noteq> r" by metis
  then have "content_hashes ?db2 (gene_hash sha256_hex g) \<noteq> content_hashes db' (gene_hash sha256_hex g)"
    using r by simp
  then have "?db2 \<noteq> db'" by metis
  then show ?thesis using r call by simp
qed

text \<open>The gene of the example registered twice as \<open>G-1\<close> from \<open>a.js\<close>.\<close>

theorem register_gene_resubmission_witness:
  "register_gene toy_digest clock_a empty_store gene_sum ''G-1'' ''a.js'' \<noteq> Inl IntegrityError
   \<and> (\<exists>res2 db2. register_gene toy_digest clock_b store_one gene_sum ''G-1'' ''a.js'' = Inr (res2, db2)
        \<and> r_occurrence_count res2 = Some 2 \<and> db2 \<noteq> store_one)"
proof -
  note first = first_registration
  have c: "content_hashes store_one (gene_hash toy_digest gene_sum) =
     Some \<lparr>ch_first_seen = clock_a 0, ch_last_seen = clock_a 1, ch_occurrence_count = 1,
         ch_representative_gene_id = ''G-1'', ch_file_paths = [''a.js''],
         ch_metadata = Complexity_Meta 0\<rparr>"
    by (simp add: store_one_def)
  show ?thesis
    using register_gene_resubmission [OF first, of clock_b] first c by auto
qed

text \<open>The claim as stated fails: after the same registration is made twice the count
  is 2, not 1.\<close>

theorem register_gene_resubmission_counterexample:
  "register_gene toy_digest clock_a empty_store gene_sum ''G-1'' ''a.js'' =
     Inr (\<lparr>r_is_duplicate = False, r_representative_gene_id = None, r_occurrence_count = None,
           r_gene_id = Some ''G-1'', r_action = created_new\<rparr>, store_one)
   \<and> map_option ch_occurrence_count (content_hashes store_one (gene_hash toy_digest gene_sum)) = Some 1
   \<and> (case register_gene toy_digest clock_b store_one gene_sum ''G-1'' ''a.js'' of
        Inl e \<Rightarrow> False
      | Inr (res2, db2) \<Rightarrow>
          r_action res2 = linked_to_existing
        \<and> map_option ch_occurrence_count (content_hashes db2 (gene_hash toy_digest gene_sum)) = Some 2)"
proof -
  have c: "content_hashes store_one (gene_hash toy_digest gene_sum) =
     Some \<lparr>ch_first_seen = clock_a 0, ch_last_seen = clock_a 1, ch_occurrence_count = 1,
         ch_representative_gene_id = ''G-1'', ch_file_paths = [''a.js''],
         ch_metadata = Complexity_Meta 0\<rparr>"
    by (simp add: store_one_def)
  show ?thesis
    using first_registration c by (simp add: register_gene_existing [OF c])
qed

section \<open>Sequences of register\_gene calls\<close>

lemma register_all_Cons_success:
  assumes "register_all sha256_hex db (c # cs) = Inr db'"
  obtains res db1 where
    "register_gene sha256_hex (c_now c) db (c_gene c) (c_gene_id c) (c_file_path c) = Inr (res, db1)"
    "register_all sha256_hex db1 cs = Inr db'"
  using assms by (auto split: sum.splits)

lemma register_all_ledger_others:
  "register_all sha256_hex db calls = Inr db' \<Longrightarrow>
   filter (\<lambda>r. ev_gene_id r \<notin> set (map c_gene_id calls)) (gene_evolution db')
     = filter (\<lambda>r. ev_gene_id r \<notin> set (map c_gene_id calls)) (gene_evolution db)"
proof (induction calls arbitrary: db)
  case Nil
  then show ?case by simp
next
  case (Cons c cs)
  from Cons.prems obtain res db1 where
    step: "register_gene sha256_hex (c_now c) db (c_gene c) (c_gene_id c) (c_file_path c) = Inr (res, db1)"
    and rest: "register_all sha256_hex db1 cs = Inr db'"
    by (rule register_all_Cons_success)
  obtain row where row: "ev_gene_id row = c_gene_id c"
    and l1: "gene_evolution db1 = filter (\<lambda>r. ev_gene_id r \<noteq> c_gene_id c) (gene_evolution db) @ [row]"
    using register_gene_ledger [OF step] by blast
  let ?P = "\<lambda>r. ev_gene_id r \<notin> set (map c_gene_id cs)"
  let ?Q = "\<lambda>r. ev_gene_id r \<noteq> c_gene_id c"
  have ih: "filter ?P (gene_evolution db') = filter ?P (gene_evolution db1)"
    using Cons.IH [OF rest] .
  have "filter (\<lambda>r. ev_gene_id r \<notin> set (map c_gene_id (c # cs))) (gene_evolution db')
        = filter ?Q (filter ?P (gene_evolution db'))"
    by (simp add: conj_commute)
  also have "\<dots> = filter ?Q (filter ?P (gene_evolution db1))" using ih by simp
  also have "\<dots> = filter ?P (filter ?Q (gene_evolution db1))"
    by (simp add: conj_commute)
  also have "filter ?Q (gene_evolution db1) = filter ?Q (gene_evolution db)"
    using l1 row by simp
  also have "filter ?P (filter ?Q (gene_evolution db))
        = filter (\<lambda>r. ev_gene_id r \<notin> set (map c_gene_id (c # cs))) (gene_evolution db)"
    by (simp add: conj_commute)
  finally show ?case .
qed

lemma register_all_ids_kept:
  "register_all sha256_hex db calls = Inr db' \<Longrightarrow>
   set (map ev_gene_id (gene_evolution db'))
     = set (map ev_gene_id (gene_evolution db)) \<union> set (map c_gene_id calls)"
proof (induction calls arbitrary: db)
  case Nil
  then show ?case by simp
next
  case (Cons c cs)
  from Cons.prems obtain res db1 where
    step: "register_gene sha256_hex (c_now c) db (c_gene c) (c_gene_id c) (c_file_path c) = Inr (res, db1)"
    and rest: "register_all sha256_hex db1 cs = Inr db'"
    by (rule register_all_Cons_success)
  show ?case
    using Cons.IH [OF rest] register_gene_ids_kept [OF step] by auto
qed

lemma register_all_appends:
  "register_all sha256_hex db calls = Inr db' \<Longrightarrow> distinct (map c_gene_id calls) \<Longrightarrow>
   set (map c_gene_id calls) \<inter> set (map ev_gene_id (gene_evolution db)) = {} \<Longrightarrow>
   \<exists>new. gene_evolution db' = gene_evolution db @ new \<and> map ev_gene_id new = map c_gene_id calls"
proof (induction calls arbitrary: db)
  case Nil
  then show ?case by simp
next
  case (Cons c cs)
  from Cons.prems(1) obtain res db1 where
    step: "register_gene sha256_hex (c_now c) db (c_gene c) (c_gene_id c) (c_file_path c) = Inr (res, db1)"
    and rest: "register_all sha256_hex db1 cs = Inr db'"
    by (rule register_all_Cons_success)
  obtain row where row: "ev_gene_id row = c_gene_id c"
    and l1: "gene_evolution db1 = filter (\<lambda>r. ev_gene_id r \<noteq> c_gene_id c) (gene_evolution db) @ [row]"
    using register_gene_ledger [OF step] by blast
  have fresh: "c_gene_id c \<notin> set (map ev_gene_id (gene_evolution db))"
    using Cons.prems(3) by auto
  have l1': "gene_evolution db1 = gene_evolution db @ [row]"
    using l1 filter_fresh [OF fresh] by simp
  have d: "distinct (map c_gene_id cs)" using Cons.prems(2) by simp
  have disj: "set (map c_gene_id cs) \<inter> set (map ev_gene_id (gene_evolution db1)) = {}"
    using Cons.prems(2,3) l1' row by auto
  obtain new where "gene_evolution db' = gene_evolution db1 @ new"
    and "map ev_gene_id new = map c_gene_id cs"
    using Cons.IH [OF rest d disj] by blast
  then have "gene_evolution db' = gene_evolution db @ (row # new)
      \<and> map ev_gene_id (row # new) = map c_gene_id (c # cs)"
    using l1' row by simp
  then show ?case by blast
qed

lemma register_all_ledger_exact:
  "register_all sha256_hex db calls = Inr db' \<Longrightarrow>
   \<exists>new. gene_evolution db' =
            filter (\<lambda>r. ev_gene_id r \<notin> set (map c_gene_id calls)) (gene_evolution db) @ new
        \<and> map ev_gene_id new = remdups (map c_gene_id calls)"
proof (induction calls arbitrary: db)
  case Nil
  then show ?case by simp
next
  case (Cons c cs)
  from Cons.prems obtain res db1 where
    step: "register_gene sha256_hex (c_now c) db (c_gene c) (c_gene_id c) (c_file_path c) = Inr (res, db1)"
    and rest: "register_all sha256_hex db1 cs = Inr db'"
    by (rule register_all_Cons_success)
  obtain row where row: "ev_gene_id row = c_gene_id c"
    and l1: "gene_evolution db1 = filter (\<lambda>r. ev_gene_id r \<noteq> c_gene_id c) (gene_evolution db) @ [row]"
    using register_gene_ledger [OF step] by blast
  obtain new where l': "gene_evolution db' =
            filter (\<lambda>r. ev_gene_id r \<notin> set (map c_gene_id cs)) (gene_evolution db1) @ new"
    and ids: "map ev_gene_id new = remdups (map c_gene_id cs)"
    using Cons.IH [OF rest] by blast
  let ?P = "\<lambda>r. ev_gene_id r \<notin> set (map c_gene_id cs)"
  let ?keep = "filter (\<lambda>r. ev_gene_id r \<notin> set (map c_gene_id (c # cs))) (gene_evolution db)"
  have f: "filter ?P (filter (\<lambda>r. ev_gene_id r \<noteq> c_gene_id c) (gene_evolution db)) = ?keep"
    by (simp add: conj_commute)
  show ?case
  proof (cases "c_gene_id c \<in> set (map c_gene_id cs)")
    case True
    then have "filter ?P (gene_evolution db1) = ?keep" using l1 row f by simp
    then have "gene_evolution db' = ?keep @ new" using l' by simp
    moreover have "map ev_gene_id new = remdups (map c_gene_id (c # cs))" using ids True by simp
    ultimately show ?thesis by blast
  next
    case False
    then have "filter ?P (gene_evolution db1) = ?keep @ [row]" using l1 row f by simp
    then have "gene_evolution db' = ?keep @ (row # new)" using l' by simp
    moreover have "map ev_gene_id (row # new) = remdups (map c_gene_id (c # cs))"
      using ids False row by simp
    ultimately show ?thesis by blast
  qed
qed

lemma register_all_keeps_key:
  assumes "register_all sha256_hex db calls = Inr db'"
    and "distinct (map ev_gene_id (gene_evolution db))"
  shows "distinct (map ev_gene_id (gene_evolution db'))"
proof -
  let ?ids = "set (map c_gene_id calls)"
  obtain new where l: "gene_evolution db' =
            filter (\<lambda>r. ev_gene_id r \<notin> ?ids) (gene_evolution db) @ new"
    and n: "map ev_gene_id new = remdups (map c_gene_id calls)"
    using register_all_ledger_exact [OF assms(1)] by blast
  have a: "distinct (map ev_gene_id (filter (\<lambda>r. ev_gene_id r \<notin> ?ids) (gene_evolution db)))"
    using assms(2) by (simp add: distinct_map_filter)
  have b: "distinct (map ev_gene_id new)" using n by simp
  have c: "set (map ev_gene_id (filter (\<lambda>r. ev_gene_id r \<notin> ?ids) (gene_evolution db)))
             \<inter> set (map ev_gene_id new) = {}"
    using n by auto
  show ?thesis using l a b c by simp
qed

lemma register_all_keeps_rows:
  "register_all sha256_hex db calls = Inr db' \<Longrightarrow> content_hashes db h = Some r \<Longrightarrow>
   \<exists>r'. content_hashes db' h = Some r'
        \<and> ch_first_seen r' = ch_first_seen r
        \<and> ch_representative_gene_id r' = ch_representative_gene_id r
        \<and> ch_metadata r' = ch_metadata r
        \<and> ch_occurrence_count r \<le> ch_occurrence_count r'
        \<and> set (ch_file_paths r) \<subseteq> set (ch_file_paths r')"
proof (induction calls arbitrary: db r)
  case Nil
  then show ?case by simp
next
  case (Cons c cs)
  from Cons.prems(1) obtain res db1 where
    step: "register_gene sha256_hex (c_now c) db (c_gene c) (c_gene_id c) (c_file_path c) = Inr (res, db1)"
    and rest: "register_all sha256_hex db1 cs = Inr db'"
    by (rule register_all_Cons_success)
  obtain r1 where r1: "content_hashes db1 h = Some r1"
    "ch_first_seen r1 = ch_first_seen r"
    "ch_representative_gene_id r1 = ch_representative_gene_id r"
    "ch_metadata r1 = ch_metadata r"
    "ch_occurrence_count r \<le> ch_occurrence_count r1"
    "set (ch_file_paths r) \<subseteq> set (ch_file_paths r1)"
    using register_gene_keeps_rows [OF step Cons.prems(2)] by blast
  obtain r' where "content_hashes db' h = Some r'"
    "ch_first_seen r' = ch_first_seen r1"
    "ch_representative_gene_id r' = ch_representative_gene_id r1"
    "ch_metadata r' = ch_metadata r1"
    "ch_occurrence_count r1 \<le> ch_occurrence_count r'"
    "set (ch_file_paths r1) \<subseteq> set (ch_file_paths r')"
    using Cons.IH [OF rest r1(1)] by blast
  then show ?case using r1 by auto
qed

lemma register_all_same_hash:
  "content_hashes db h = Some r \<Longrightarrow> \<forall>c \<in> set calls. gene_hash sha256_hex (c_gene c) = h \<Longrightarrow>
   \<exists>db' r'. register_all sha256_hex db calls = Inr db'
        \<and> content_hashes db' h = Some r'
        \<and> ch_occurrence_count r' = ch_occurrence_count r + int (length calls)
        \<and> ch_representative_gene_id r' = ch_representative_gene_id r
        \<and> set (ch_file_paths r') = set (ch_file_paths r) \<union> set (map c_file_path calls)
        \<and> dom (content_hashes db') = dom (content_hashes db)"
proof (induction calls arbitrary: db r)
  case Nil
  then show ?case by simp
next
  case (Cons c cs)
  have hc: "gene_hash sha256_hex (c_gene c) = h" using Cons.prems(2) by simp
  let ?paths = "if c_file_path c \<in> set (ch_file_paths r) then ch_file_paths r
                else ch_file_paths r @ [c_file_path c]"
  let ?r1 = "r\<lparr>ch_last_seen := c_now c 0, ch_occurrence_count := ch_occurrence_count r + 1,
               ch_file_paths := ?paths\<rparr>"
  obtain res db1 where
    step: "register_gene sha256_hex (c_now c) db (c_gene c) (c_gene_id c) (c_file_path c) = Inr (res, db1)"
    and h1: "content_hashes db1 = (content_hashes db)(h \<mapsto> ?r1)"
    using register_gene_existing [of db sha256_hex "c_gene c" r "c_now c" "c_gene_id c" "c_file_path c"]
      Cons.prems(1) hc by auto
  have r1: "content_hashes db1 h = Some ?r1" using h1 by simp
  have all: "\<forall>c \<in> set cs. gene_hash sha256_hex (c_gene c) = h" using Cons.prems(2) by simp
  obtain db' r' where rest: "register_all sha256_hex db1 cs = Inr db'"
    and r': "content_hashes db' h = Some r'"
      "ch_occurrence_count r' = ch_occurrence_count ?r1 + int (length cs)"
      "ch_representative_gene_id r' = ch_representative_gene_id ?r1"
      "set (ch_file_paths r') = set (ch_file_paths ?r1) \<union> set (map c_file_path cs)"
      "dom (content_hashes db') = dom (content_hashes db1)"
    using Cons.IH [OF r1 all] by blast
  have "register_all sha256_hex db (c # cs) = Inr db'" using step rest by simp
  moreover have "ch_occurrence_count r' = ch_occurrence_count r + int (length (c # cs))"
    using r'(2) by simp
  moreover have "ch_representative_gene_id r' = ch_representative_gene_id r"
    using r'(3) by simp
  moreover have "set (ch_file_paths r') = set (ch_file_paths r) \<union> set (map c_file_path (c # cs))"
    using r'(4) by auto
  moreover have "dom (content_hashes db') = dom (content_hashes db)"
    using r'(5) h1 Cons.prems(1) by auto
  ultimately show ?case using r'(1) by blast
qed

text \<open>
  Claim C6, as the code has it. Across any sequence of successful \<open>register_gene\<close> calls:
  the ledger records of gene ids that none of the calls uses stay as they are and in their
  order; every gene id of a call has a record afterwards, and no gene id loses its record;
  when the gene ids of the calls are distinct and new to the ledger, the ledger after the
  calls is the ledger before them with one record per call appended; and every
  \<open>content_hashes\<close> row is still there with the same \<open>first_seen\<close>, representative and
  metadata, a count that is not smaller and a path list that lost nothing. The ledger is
  not append-only for a gene id that is used again: the ledger after the calls is the
  records of the unused gene ids followed by exactly one record for each gene id the calls
  use, in the order of its last use, so an earlier record of a used gene id is gone and a
  ledger with one record per gene id stays so; and one call with a gene id that the ledger
  holds removes the record of that gene id and puts the new duplication record, with the
  representative as parent and confidence 0.95, at the end (\<open>INSERT OR REPLACE\<close>).
\<close>

theorem evolution_ledger_keeps_other_ids:
  assumes "register_all sha256_hex db calls = Inr db'"
  shows "filter (\<lambda>r. ev_gene_id r \<notin> set (map c_gene_id calls)) (gene_evolution db')
           = filter (\<lambda>r. ev_gene_id r \<notin> set (map c_gene_id calls)) (gene_evolution db)
       \<and> set (map ev_gene_id (gene_evolution db'))
           = set (map ev_gene_id (gene_evolution db)) \<union> set (map c_gene_id calls)
       \<and> (distinct (map c_gene_id calls)
            \<and> set (map c_gene_id calls) \<inter> set (map ev_gene_id (gene_evolution db)) = {}
          \<longrightarrow> (\<exists>new. gene_evolution db' = gene_evolution db @ new
                    \<and> map ev_gene_id new = map c_gene_id calls))
       \<and> (\<forall>h r. content_hashes db h = Some r \<longrightarrow>
            (\<exists>r'. content_hashes db' h = Some r'
                 \<and> ch_first_seen r' = ch_first_seen r
                 \<and> ch_representative_gene_id r' = ch_representative_gene_id r
                 \<and> ch_metadata r' = ch_metadata r
                 \<and> ch_occurrence_count r \<le> ch_occurrence_count r'
                 \<and> set (ch_file_paths r) \<subseteq> set (ch_file_paths r')))
       \<and> (\<exists>new. gene_evolution db' =
                   filter (\<lambda>r. ev_gene_id r \<notin> set (map c_gene_id calls)) (gene_evolution db) @ new
               \<and> map ev_gene_id new = remdups (map c_gene_id calls))
       \<and> (distinct (map ev_gene_id (gene_evolution db))
            \<longrightarrow> distinct (map ev_gene_id (gene_evolution db')))
       \<and> (\<forall>c. calls = [c] \<and> c_gene_id c \<in> set (map ev_gene_id (gene_evolution db)) \<longrightarrow>
            (\<exists>ex. content_hashes db (gene_hash sha256_hex (c_gene c)) = Some ex
                \<and> gene_evolution db' =
                    filter (\<lambda>r. ev_gene_id r \<noteq> c_gene_id c) (gene_evolution db) @
                    [\<lparr>ev_gene_id = c_gene_id c, ev_content_hash = gene_hash sha256_hex (c_gene c),
                      ev_parent_gene_id = Some (ch_representative_gene_id ex),
                      ev_evolution_type = duplication, ev_confidence_score = 95 / 100,
                      ev_timestamp = c_now c 1,
                      ev_metadata =
                        Duplication_Meta (hd (ch_file_paths ex @ [c_file_path c])) (c_file_path c)\<rparr>]))"
proof -
  have one: "\<forall>c. calls = [c] \<and> c_gene_id c \<in> set (map ev_gene_id (gene_evolution db)) \<longrightarrow>
            (\<exists>ex. content_hashes db (gene_hash sha256_hex (c_gene c)) = Some ex
                \<and> gene_evolution db' =
                    filter (\<lambda>r. ev_gene_id r \<noteq> c_gene_id c) (gene_evolution db) @
                    [\<lparr>ev_gene_id = c_gene_id c, ev_content_hash = gene_hash sha256_hex (c_gene c),
                      ev_parent_gene_id = Some (ch_representative_gene_id ex),
                      ev_evolution_type = duplication, ev_confidence_score = 95 / 100,
                      ev_timestamp = c_now c 1,
                      ev_metadata =
                        Duplication_Meta (hd (ch_file_paths ex @ [c_file_path c])) (c_file_path c)\<rparr>])"
  proof (intro allI impI)
    fix c
    assume h: "calls = [c] \<and> c_gene_id c \<in> set (map ev_gene_id (gene_evolution db))"
    then obtain res where
      "register_gene sha256_hex (c_now c) db (c_gene c) (c_gene_id c) (c_file_path c) = Inr (res, db')"
      using assms by (auto split: sum.splits)
    from register_gene_replaces [OF this] h
    show "\<exists>ex. content_hashes db (gene_hash sha256_hex (c_gene c)) = Some ex
                \<and> gene_evolution db' =
                    filter (\<lambda>r. ev_gene_id r \<noteq> c_gene_id c) (gene_evolution db) @
                    [\<lparr>ev_gene_id = c_gene_id c, ev_content_hash = gene_hash sha256_hex (c_gene c),
                      ev_parent_gene_id = Some (ch_representative_gene_id ex),
                      ev_evolution_type = duplication, ev_confidence_score = 95 / 100,
                      ev_timestamp = c_now c 1,
                      ev_metadata =
                        Duplication_Meta (hd (ch_file_paths ex @ [c_file_path c])) (c_file_path c)\<rparr>]"
      by blast
  qed
  show ?thesis
    using register_all_ledger_others [OF assms] register_all_ids_kept [OF assms]
      register_all_appends [OF assms] register_all_keeps_rows [OF assms]
      register_all_ledger_exact [OF assms] register_all_keeps_key [OF assms] one
    by blast
qed

text \<open>The two example registrations, with distinct gene ids, append two records; the
  first call made again replaces the creation record of \<open>G-1\<close> by a duplication record.\<close>

theorem evolution_ledger_keeps_other_ids_witness:
  "register_all toy_digest empty_store [call_a, call_b] = Inr store_two
   \<and> distinct (map c_gene_id [call_a, call_b])
   \<and> set (map c_gene_id [call_a, call_b]) \<inter> set (map ev_gene_id (gene_evolution empty_store)) = {}
   \<and> (\<exists>new. gene_evolution store_two = gene_evolution empty_store @ new
            \<and> map ev_gene_id new = map c_gene_id [call_a, call_b])
   \<and> set (map ev_gene_id (gene_evolution store_two)) = {''G-1'', ''G-2''}
   \<and> register_all toy_digest store_one [call_again] = Inr store_again
   \<and> c_gene_id call_again \<in> set (map ev_gene_id (gene_evolution store_one))
   \<and> distinct (map ev_gene_id (gene_evolution store_one))
   \<and> distinct (map ev_gene_id (gene_evolution store_again))
   \<and> map (\<lambda>r. (ev_gene_id r, ev_evolution_type r, ev_parent_gene_id r)) (gene_evolution store_one)
       = [(''G-1'', creation, None)]
   \<and> map (\<lambda>r. (ev_gene_id r, ev_evolution_type r, ev_parent_gene_id r)) (gene_evolution store_again)
       = [(''G-1'', duplication, Some ''G-1'')]"
proof -
  have d: "distinct (map c_gene_id [call_a, call_b])"
    by (simp add: call_a_def call_b_def)
  have e: "set (map c_gene_id [call_a, call_b]) \<inter> set (map ev_gene_id (gene_evolution empty_store)) = {}"
    by (simp add: empty_store_def)
  have ids: "set (map ev_gene_id (gene_evolution empty_store)) \<union> set (map c_gene_id [call_a, call_b])
      = {''G-1'', ''G-2''}"
    by (simp add: empty_store_def call_a_def call_b_def)
  have first: "register_all toy_digest empty_store [call_a, call_b] = Inr store_two
   \<and> (\<exists>new. gene_evolution store_two = gene_evolution empty_store @ new
            \<and> map ev_gene_id new = map c_gene_id [call_a, call_b])
   \<and> set (map ev_gene_id (gene_evolution store_two)) = {''G-1'', ''G-2''}"
    using evolution_ledger_keeps_other_ids [OF two_registrations] two_registrations d e ids
    by simp
  have m: "c_gene_id call_again \<in> set (map ev_gene_id (gene_evolution store_one))"
    by (simp add: call_again_def store_one_def)
  have k: "distinct (map ev_gene_id (gene_evolution store_one))"
    by (simp add: store_one_def)
  have k': "distinct (map ev_gene_id (gene_evolution store_again))"
    using evolution_ledger_keeps_other_ids [OF one_registration_again] k by blast
  have o: "map (\<lambda>r. (ev_gene_id r, ev_evolution_type r, ev_parent_gene_id r)) (gene_evolution store_one)
       = [(''G-1'', creation, None)]"
    by (simp add: store_one_def)
  obtain ex where ex: "content_hashes store_one (gene_hash toy_digest (c_gene call_again)) = Some ex"
    and l: "gene_evolution store_again =
                    filter (\<lambda>r. ev_gene_id r \<noteq> c_gene_id call_again) (gene_evolution store_one) @
                    [\<lparr>ev_gene_id = c_gene_id call_again,
                      ev_content_hash = gene_hash toy_digest (c_gene call_again),
                      ev_parent_gene_id = Some (ch_representative_gene_id ex),
                      ev_evolution_type = duplication, ev_confidence_score = 95 / 100,
                      ev_timestamp = c_now call_again 1,
                      ev_metadata =
                        Duplication_Meta (hd (ch_file_paths ex @ [c_file_path call_again]))
                          (c_file_path call_again)\<rparr>]"
    using evolution_ledger_keeps_other_ids [OF one_registration_again] m by blast
  have "c_gene call_again = gene_sum" by (simp add: call_again_def)
  then have "ex = \<lparr>ch_first_seen = clock_a 0, ch_last_seen = clock_a 1, ch_occurrence_count = 1,
         ch_representative_gene_id = ''G-1'', ch_file_paths = [''a.js''],
         ch_metadata = Complexity_Meta 0\<rparr>"
    using ex store_one_row by simp
  then have "ch_representative_gene_id ex = ''G-1''" by simp
  then have n: "map (\<lambda>r. (ev_gene_id r, ev_evolution_type r, ev_parent_gene_id r)) (gene_evolution store_again)
       = [(''G-1'', duplication, Some ''G-1'')]"
    using l by (simp add: call_again_def store_one_def)
  show ?thesis using first d e one_registration_again m k k' o n by blast
qed

text \<open>The claim as stated fails: registering the gene id \<open>G-1\<close> a second time
  overwrites the creation record the first call wrote.\<close>

theorem evolution_ledger_keeps_other_ids_counterexample:
  "register_gene toy_digest clock_a empty_store gene_sum ''G-1'' ''a.js'' =
     Inr (\<lparr>r_is_duplicate = False, r_representative_gene_id = None, r_occurrence_count = None,
           r_gene_id = Some ''G-1'', r_action = created_new\<rparr>, store_one)
   \<and> map (\<lambda>r. (ev_gene_id r, ev_evolution_type r, ev_parent_gene_id r)) (gene_evolution store_one)
       = [(''G-1'', creation, None)]
   \<and> (case register_gene toy_digest clock_b store_one gene_sum ''G-1'' ''a.js'' of
        Inl e \<Rightarrow> False
      | Inr (res2, db2) \<Rightarrow>
          map (\<lambda>r. (ev_gene_id r, ev_evolution_type r, ev_parent_gene_id r)) (gene_evolution db2)
            = [(''G-1'', duplication, Some ''G-1'')])"
  using first_registration
  by (simp add: register_gene_existing [OF store_one_row]) (simp add: store_one_def)

text \<open>
  Claim C7. From a store without the fingerprint \<open>h\<close>, a sequence of \<open>N \<ge> 1\<close> calls whose
  genes all have the fingerprint \<open>h\<close>, the first with a gene id that is new to the ledger,
  succeeds and leaves exactly one new row, the row of \<open>h\<close>, with
  \<open>occurrence_count = N\<close>, the gene id of the first call as representative and the paths
  of the calls as path set. Whatever calls succeed afterwards, the representative stays and
  the path set only grows.
\<close>

theorem occurrence_count_counts_registrations:
  assumes "content_hashes db h = None"
    and "calls \<noteq> []"
    and "\<forall>c \<in> set calls. gene_hash sha256_hex (c_gene c) = h"
    and "c_gene_id (hd calls) \<notin> set (map ev_gene_id (gene_evolution db))"
  shows "\<exists>db' r. register_all sha256_hex db calls = Inr db'
        \<and> content_hashes db' h = Some r
        \<and> dom (content_hashes db') = insert h (dom (content_hashes db))
        \<and> ch_occurrence_count r = int (length calls)
        \<and> ch_representative_gene_id r = c_gene_id (hd calls)
        \<and> set (ch_file_paths r) = set (map c_file_path calls)
        \<and> (\<forall>later db''. register_all sha256_hex db' later = Inr db'' \<longrightarrow>
             (\<exists>r''. content_hashes db'' h = Some r''
                  \<and> ch_representative_gene_id r'' = c_gene_id (hd calls)
                  \<and> set (ch_file_paths r) \<subseteq> set (ch_file_paths r'')))"
proof -
  obtain c cs where calls: "calls = c # cs" using assms(2) by (cases calls) auto
  have hc: "gene_hash sha256_hex (c_gene c) = h" using assms(3) calls by simp
  let ?r1 = "\<lparr>ch_first_seen = c_now c 0, ch_last_seen = c_now c 1, ch_occurrence_count = 1,
               ch_representative_gene_id = c_gene_id c, ch_file_paths = [c_file_path c],
               ch_metadata = Complexity_Meta (case g_complexity (c_gene c) of None \<Rightarrow> 0 | Some x \<Rightarrow> x)\<rparr>"
  obtain res db1 where
    step: "register_gene sha256_hex (c_now c) db (c_gene c) (c_gene_id c) (c_file_path c) = Inr (res, db1)"
    and h1: "content_hashes db1 = (content_hashes db)(h \<mapsto> ?r1)"
    using register_gene_new [of db sha256_hex "c_gene c" "c_gene_id c" "c_now c" "c_file_path c"]
      assms(1,4) hc calls by auto
  have r1: "content_hashes db1 h = Some ?r1" using h1 by simp
  have all: "\<forall>c \<in> set cs. gene_hash sha256_hex (c_gene c) = h" using assms(3) calls by simp
  obtain db' r where rest: "register_all sha256_hex db1 cs = Inr db'"
    and r: "content_hashes db' h = Some r"
      "ch_occurrence_count r = ch_occurrence_count ?r1 + int (length cs)"
      "ch_representative_gene_id r = ch_representative_gene_id ?r1"
      "set (ch_file_paths r) = set (ch_file_paths ?r1) \<union> set (map c_file_path cs)"
      "dom (content_hashes db') = dom (content_hashes db1)"
    using register_all_same_hash [OF r1 all] by blast
  have run: "register_all sha256_hex db calls = Inr db'" using step rest calls by simp
  have cnt: "ch_occurrence_count r = int (length calls)" using r(2) calls by simp
  have rep: "ch_representative_gene_id r = c_gene_id (hd calls)" using r(3) calls by simp
  have paths: "set (ch_file_paths r) = set (map c_file_path calls)" using r(4) calls by auto
  have dm: "dom (content_hashes db') = insert h (dom (content_hashes db))"
    using r(5) h1 by auto
  have later: "\<forall>later db''. register_all sha256_hex db' later = Inr db'' \<longrightarrow>
             (\<exists>r''. content_hashes db'' h = Some r''
                  \<and> ch_representative_gene_id r'' = c_gene_id (hd calls)
                  \<and> set (ch_file_paths r) \<subseteq> set (ch_file_paths r''))"
  proof (intro allI impI)
    fix later db''
    assume "register_all sha256_hex db' later = Inr db''"
    from register_all_keeps_rows [OF this r(1)] rep
    show "\<exists>r''. content_hashes db'' h = Some r''
                  \<and> ch_representative_gene_id r'' = c_gene_id (hd calls)
                  \<and> set (ch_file_paths r) \<subseteq> set (ch_file_paths r'')"
      by auto
  qed
  show ?thesis using run r(1) dm cnt rep paths later by blast
qed

text \<open>The two example registrations: count 2, representative \<open>G-1\<close>, paths \<open>a.js\<close> and
  \<open>b.js\<close>.\<close>

theorem occurrence_count_counts_registrations_witness:
  "content_hashes empty_store (gene_hash toy_digest gene_sum) = None
   \<and> [call_a, call_b] \<noteq> []
   \<and> gene_hash toy_digest (c_gene call_a) = gene_hash toy_digest gene_sum
   \<and> gene_hash toy_digest (c_gene call_b) = gene_hash toy_digest gene_sum
   \<and> c_gene_id (hd [call_a, call_b]) \<notin> set (map ev_gene_id (gene_evolution empty_store))
   \<and> (\<exists>db' r. register_all toy_digest empty_store [call_a, call_b] = Inr db'
        \<and> content_hashes db' (gene_hash toy_digest gene_sum) = Some r
        \<and> ch_occurrence_count r = 2
        \<and> ch_representative_gene_id r = ''G-1''
        \<and> set (ch_file_paths r) = {''a.js'', ''b.js''})"
proof -
  have a: "content_hashes empty_store (gene_hash toy_digest gene_sum) = None"
    by (simp add: empty_store_def)
  have b: "[call_a, call_b] \<noteq> []" by simp
  have c: "\<forall>c \<in> set [call_a, call_b]. gene_hash toy_digest (c_gene c) = gene_hash toy_digest gene_sum"
    by (simp add: call_a_def call_b_def hash_spaced)
  have d: "c_gene_id (hd [call_a, call_b]) \<notin> set (map ev_gene_id (gene_evolution empty_store))"
    by (simp add: empty_store_def)
  have e: "c_gene_id (hd [call_a, call_b]) = ''G-1''" by (simp add: call_a_def)
  have f: "set (map c_file_path [call_a, call_b]) = {''a.js'', ''b.js''}"
    by (simp add: call_a_def call_b_def)
  show ?thesis
    using occurrence_count_counts_registrations [OF a b c d] a c d e f
    by (simp del: register_all.simps) metis
qed

section \<open>register\_gene: two calls for the same new fingerprint at once\<close>

lemma register_write_after_check:
  "register_write sha256_hex now db g gene_id file_path (register_check sha256_hex db g)
     = register_gene sha256_hex now db g gene_id file_path"
  by (simp add: register_write_def register_check_def register_gene_def Let_def
      split: option.splits)

lemma register_write_stale_none:
  "content_hashes db (gene_hash sha256_hex g) = Some current \<Longrightarrow>
   register_write sha256_hex now db g gene_id file_path None = Inl IntegrityError"
  by (simp add: register_write_def)

lemma register_write_first:
  assumes "content_hashes db (gene_hash sha256_hex (c_gene c)) = None"
    and "c_gene_id c \<notin> set (map ev_gene_id (gene_evolution db))"
  shows "register_write sha256_hex (c_now c) db (c_gene c) (c_gene_id c) (c_file_path c) None
           = Inr (created_result c, created_store sha256_hex db c)"
proof -
  have "register_check sha256_hex db (c_gene c) = None"
    using assms(1) by (simp add: register_check_def)
  then have "register_write sha256_hex (c_now c) db (c_gene c) (c_gene_id c) (c_file_path c) None
      = register_gene sha256_hex (c_now c) db (c_gene c) (c_gene_id c) (c_file_path c)"
    using register_write_after_check [of sha256_hex "c_now c" db "c_gene c" "c_gene_id c" "c_file_path c"]
    by simp
  then show ?thesis
    using register_gene_new [OF assms] by (simp add: created_result_def created_store_def)
qed

lemma race_checks_first:
  assumes "content_hashes db h = None"
    and "\<And>z. gene_hash sha256_hex (c_gene (calls z)) = h"
    and "c_gene_id (calls x) \<notin> set (map ev_gene_id (gene_evolution db))"
    and "x \<noteq> y"
  shows "run_schedule sha256_hex calls [Check a, Check b, Write x, Write y] (race_start db)
     = \<lparr>rs_db = created_store sha256_hex db (calls x),
        rs_existing = (\<lambda>z. None),
        rs_outcome = (\<lambda>z. None)(x := Some (Inr (created_result (calls x))),
                                y := Some (Inl IntegrityError))\<rparr>"
proof -
  have chk: "register_check sha256_hex db (c_gene (calls z)) = None" for z
    using assms(1,2) by (simp add: register_check_def)
  have ex: "(\<lambda>z. None)(a := None, b := None) = (\<lambda>z::caller. None::content_hash_row option)"
    by auto
  have w1: "register_write sha256_hex (c_now (calls x)) db (c_gene (calls x)) (c_gene_id (calls x))
              (c_file_path (calls x)) None
            = Inr (created_result (calls x), created_store sha256_hex db (calls x))"
    using register_write_first [of db sha256_hex "calls x"] assms(1,2,3) by simp
  have "content_hashes (created_store sha256_hex db (calls x)) (gene_hash sha256_hex (c_gene (calls y)))
          \<noteq> None"
    using assms(2) by (simp add: created_store_def)
  then have w2: "register_write sha256_hex (c_now (calls y)) (created_store sha256_hex db (calls x))
              (c_gene (calls y)) (c_gene_id (calls y)) (c_file_path (calls y)) None
            = Inl IntegrityError"
    using register_write_stale_none by fastforce
  show ?thesis
    by (simp add: race_start_def chk ex w1 w2)
qed

lemma race_sequential:
  assumes "content_hashes db h = None"
    and "\<And>z. gene_hash sha256_hex (c_gene (calls z)) = h"
    and "c_gene_id (calls x) \<notin> set (map ev_gene_id (gene_evolution db))"
    and "x \<noteq> y"
  shows "\<exists>res db2. run_schedule sha256_hex calls [Check x, Write x, Check y, Write y] (race_start db)
     = \<lparr>rs_db = db2,
        rs_existing = (\<lambda>z. None)(y := content_hashes (created_store sha256_hex db (calls x)) h),
        rs_outcome = (\<lambda>z. None)(x := Some (Inr (created_result (calls x))),
                                y := Some (Inr res))\<rparr>
     \<and> register_gene sha256_hex (c_now (calls y)) (created_store sha256_hex db (calls x))
           (c_gene (calls y)) (c_gene_id (calls y)) (c_file_path (calls y)) = Inr (res, db2)
     \<and> r_action res = linked_to_existing
     \<and> r_representative_gene_id res = Some (c_gene_id (calls x))
     \<and> r_occurrence_count res = Some 2"
proof -
  let ?db1 = "created_store sha256_hex db (calls x)"
  have chk: "register_check sha256_hex db (c_gene (calls x)) = None"
    using assms(1,2) by (simp add: register_check_def)
  have ex: "(\<lambda>z. None)(x := None) = (\<lambda>z::caller. None::content_hash_row option)"
    by auto
  have w1: "register_write sha256_hex (c_now (calls x)) db (c_gene (calls x)) (c_gene_id (calls x))
              (c_file_path (calls x)) None
            = Inr (created_result (calls x), ?db1)"
    using register_write_first [of db sha256_hex "calls x"] assms(1,2,3) by simp
  have chk2: "register_check sha256_hex ?db1 (c_gene (calls y)) = content_hashes ?db1 h"
    using assms(2) by (simp add: register_check_def)
  obtain row where row: "content_hashes ?db1 (gene_hash sha256_hex (c_gene (calls y))) = Some row"
    and rep: "ch_representative_gene_id row = c_gene_id (calls x)"
    and cnt: "ch_occurrence_count row = 1"
    using assms(2) by (simp add: created_store_def)
  let ?res = "\<lparr>r_is_duplicate = True,
           r_representative_gene_id = Some (ch_representative_gene_id row),
           r_occurrence_count = Some (ch_occurrence_count row + 1),
           r_gene_id = None, r_action = linked_to_existing\<rparr>"
  obtain db2 where call2: "register_gene sha256_hex (c_now (calls y)) ?db1
           (c_gene (calls y)) (c_gene_id (calls y)) (c_file_path (calls y)) = Inr (?res, db2)"
    using register_gene_existing [OF row] by blast
  have w2: "register_write sha256_hex (c_now (calls y)) ?db1
              (c_gene (calls y)) (c_gene_id (calls y)) (c_file_path (calls y))
              (content_hashes ?db1 h) = Inr (?res, db2)"
    using register_write_after_check [of sha256_hex "c_now (calls y)" ?db1 "c_gene (calls y)"
        "c_gene_id (calls y)" "c_file_path (calls y)"] chk2 call2 by simp
  have run: "run_schedule sha256_hex calls [Check x, Write x, Check y, Write y] (race_start db)
     = \<lparr>rs_db = db2,
        rs_existing = (\<lambda>z. None)(y := content_hashes ?db1 h),
        rs_outcome = (\<lambda>z. None)(x := Some (Inr (created_result (calls x))),
                                y := Some (Inr ?res))\<rparr>"
    using assms(4) by (simp add: race_start_def chk ex w1 chk2 w2)
  show ?thesis using run call2 rep cnt by auto
qed

lemma racing_outcome:
  assumes "content_hashes db h = None"
    and "\<And>z. gene_hash sha256_hex (c_gene (calls z)) = h"
    and "c_gene_id (calls x) \<notin> set (map ev_gene_id (gene_evolution db))"
    and "x \<noteq> y"
  shows "returned_action (run_schedule sha256_hex calls [Check a, Check b, Write x, Write y] (race_start db))
            x created_new
       \<and> raised (run_schedule sha256_hex calls [Check a, Check b, Write x, Write y] (race_start db))
            y IntegrityError
       \<and> \<not> returned_action (run_schedule sha256_hex calls [Check a, Check b, Write x, Write y] (race_start db))
            y created_new
       \<and> rs_db (run_schedule sha256_hex calls [Check a, Check b, Write x, Write y] (race_start db))
            = created_store sha256_hex db (calls x)"
  unfolding race_checks_first [where calls = calls and x = x, OF assms]
  using assms(4) by (simp add: returned_action_def raised_def created_result_def)

lemma sequential_outcome:
  assumes "content_hashes db h = None"
    and "\<And>z. gene_hash sha256_hex (c_gene (calls z)) = h"
    and "c_gene_id (calls x) \<notin> set (map ev_gene_id (gene_evolution db))"
    and "x \<noteq> y"
  shows "returned_action (run_schedule sha256_hex calls [Check x, Write x, Check y, Write y] (race_start db))
            x created_new
       \<and> returned_action (run_schedule sha256_hex calls [Check x, Write x, Check y, Write y] (race_start db))
            y linked_to_existing
       \<and> \<not> returned_action (run_schedule sha256_hex calls [Check x, Write x, Check y, Write y] (race_start db))
            y created_new
       \<and> (\<exists>res. register_gene sha256_hex (c_now (calls y)) (created_store sha256_hex db (calls x))
                   (c_gene (calls y)) (c_gene_id (calls y)) (c_file_path (calls y))
                 = Inr (res, rs_db (run_schedule sha256_hex calls [Check x, Write x, Check y, Write y]
                                      (race_start db)))
               \<and> r_representative_gene_id res = Some (c_gene_id (calls x))
               \<and> r_occurrence_count res = Some 2)"
proof -
  obtain res db2 where run: "run_schedule sha256_hex calls [Check x, Write x, Check y, Write y] (race_start db)
     = \<lparr>rs_db = db2,
        rs_existing = (\<lambda>z. None)(y := content_hashes (created_store sha256_hex db (calls x)) h),
        rs_outcome = (\<lambda>z. None)(x := Some (Inr (created_result (calls x))),
                                y := Some (Inr res))\<rparr>"
    and call: "register_gene sha256_hex (c_now (calls y)) (created_store sha256_hex db (calls x))
           (c_gene (calls y)) (c_gene_id (calls y)) (c_file_path (calls y)) = Inr (res, db2)"
    and res: "r_action res = linked_to_existing"
      "r_representative_gene_id res = Some (c_gene_id (calls x))"
      "r_occurrence_count res = Some 2"
    using race_sequential [where calls = calls and x = x, OF assms] by blast
  show ?thesis
    unfolding run using assms(4) call res
    by (simp add: returned_action_def created_result_def)
qed

lemma created_store_call_a: "created_store toy_digest empty_store call_a = store_one"
  by (simp add: created_store_def call_a_def empty_store_def store_one_def gene_sum_def)

lemma race_calls_hash: "gene_hash toy_digest (c_gene (race_calls z)) = gene_hash toy_digest gene_sum"
  by (cases z) (simp_all add: race_calls_def call_a_def call_b_def hash_spaced)

text \<open>
  Claim C10, as the code has it. Two calls of \<open>register_gene\<close> for the same fingerprint
  that the store does not hold, with gene ids new to the ledger, never both return
  \<open>created_new\<close>, in any of the six orders of their checks and writes. The check and the
  write are not one atomic unit: when both checks run before both writes, the caller that
  writes first creates the row and returns \<open>created_new\<close>, and the other caller, whose check
  found nothing, raises \<open>sqlite3.IntegrityError\<close> at \<open>INSERT INTO content_hashes\<close>; it
  records no duplication and the store stays as the first writer left it. Only when one
  call runs after the other does the second observe the row and return
  \<open>linked_to_existing\<close> with the first gene id as representative and the count 2. Run on
  the tables its check saw, the write is \<open>register_gene\<close>.
\<close>

theorem register_race:
  assumes "content_hashes db h = None"
    and "gene_hash sha256_hex (c_gene (calls First)) = h"
    and "gene_hash sha256_hex (c_gene (calls Second)) = h"
    and "c_gene_id (calls First) \<notin> set (map ev_gene_id (gene_evolution db))"
    and "c_gene_id (calls Second) \<notin> set (map ev_gene_id (gene_evolution db))"
  shows "(\<forall>es \<in> set (sequential_schedules @ racing_schedules).
            \<not> (returned_action (run_schedule sha256_hex calls es (race_start db)) First created_new
               \<and> returned_action (run_schedule sha256_hex calls es (race_start db)) Second created_new))
       \<and> (\<forall>es \<in> set racing_schedules.
            \<exists>x. returned_action (run_schedule sha256_hex calls es (race_start db)) x created_new
               \<and> raised (run_schedule sha256_hex calls es (race_start db)) (other x) IntegrityError
               \<and> rs_db (run_schedule sha256_hex calls es (race_start db))
                   = created_store sha256_hex db (calls x))
       \<and> (\<forall>es \<in> set sequential_schedules.
            \<exists>x. returned_action (run_schedule sha256_hex calls es (race_start db)) x created_new
               \<and> returned_action (run_schedule sha256_hex calls es (race_start db)) (other x)
                   linked_to_existing
               \<and> (\<exists>res. register_gene sha256_hex (c_now (calls (other x)))
                           (created_store sha256_hex db (calls x))
                           (c_gene (calls (other x))) (c_gene_id (calls (other x)))
                           (c_file_path (calls (other x)))
                         = Inr (res, rs_db (run_schedule sha256_hex calls es (race_start db)))
                       \<and> r_representative_gene_id res = Some (c_gene_id (calls x))
                       \<and> r_occurrence_count res = Some 2))
       \<and> (\<forall>db' g now gene_id file_path.
            register_write sha256_hex now db' g gene_id file_path (register_check sha256_hex db' g)
              = register_gene sha256_hex now db' g gene_id file_path)"
proof -
  have hs: "\<And>z. gene_hash sha256_hex (c_gene (calls z)) = h"
    using assms(2,3) by (metis caller.exhaust)
  note rF = racing_outcome [where calls = calls and x = First and y = Second, OF assms(1) hs assms(4) caller.distinct(1)]
  note rS = racing_outcome [where calls = calls and x = Second and y = First, OF assms(1) hs assms(5) caller.distinct(2)]
  note sF = sequential_outcome [where calls = calls and x = First and y = Second, OF assms(1) hs assms(4) caller.distinct(1)]
  note sS = sequential_outcome [where calls = calls and x = Second and y = First, OF assms(1) hs assms(5) caller.distinct(2)]
  have oF: "other First = Second" and oS: "other Second = First" by (simp_all add: other_def)
  have racing: "\<forall>es \<in> set racing_schedules.
            \<exists>x. returned_action (run_schedule sha256_hex calls es (race_start db)) x created_new
               \<and> raised (run_schedule sha256_hex calls es (race_start db)) (other x) IntegrityError
               \<and> rs_db (run_schedule sha256_hex calls es (race_start db))
                   = created_store sha256_hex db (calls x)"
    unfolding racing_schedules_def
    using rF [where a = First and b = Second] rF [where a = Second and b = First]
      rS [where a = First and b = Second] rS [where a = Second and b = First] oF oS
    by (simp del: run_schedule.simps) metis
  have seq: "\<forall>es \<in> set sequential_schedules.
            \<exists>x. returned_action (run_schedule sha256_hex calls es (race_start db)) x created_new
               \<and> returned_action (run_schedule sha256_hex calls es (race_start db)) (other x)
                   linked_to_existing
               \<and> (\<exists>res. register_gene sha256_hex (c_now (calls (other x)))
                           (created_store sha256_hex db (calls x))
                           (c_gene (calls (other x))) (c_gene_id (calls (other x)))
                           (c_file_path (calls (other x)))
                         = Inr (res, rs_db (run_schedule sha256_hex calls es (race_start db)))
                       \<and> r_representative_gene_id res = Some (c_gene_id (calls x))
                       \<and> r_occurrence_count res = Some 2)"
    unfolding sequential_schedules_def
    using sF sS oF oS
    by (simp del: run_schedule.simps) metis
  have never: "\<forall>es \<in> set (sequential_schedules @ racing_schedules).
            \<not> (returned_action (run_schedule sha256_hex calls es (race_start db)) First created_new
               \<and> returned_action (run_schedule sha256_hex calls es (race_start db)) Second created_new)"
    unfolding racing_schedules_def sequential_schedules_def
    using rF [where a = First and b = Second] rF [where a = Second and b = First]
      rS [where a = First and b = Second] rS [where a = Second and b = First] sF sS
    by (simp del: run_schedule.simps)
  show ?thesis using never racing seq register_write_after_check by blast
qed

text \<open>The two example calls with both checks before both writes.\<close>

theorem register_race_witness:
  "content_hashes empty_store (gene_hash toy_digest gene_sum) = None
   \<and> gene_hash toy_digest (c_gene (race_calls First)) = gene_hash toy_digest gene_sum
   \<and> gene_hash toy_digest (c_gene (race_calls Second)) = gene_hash toy_digest gene_sum
   \<and> c_gene_id (race_calls First) \<notin> set (map ev_gene_id (gene_evolution empty_store))
   \<and> c_gene_id (race_calls Second) \<notin> set (map ev_gene_id (gene_evolution empty_store))
   \<and> \<not> (returned_action
           (run_schedule toy_digest race_calls
              [Check First, Check Second, Write First, Write Second] (race_start empty_store))
           First created_new
        \<and> returned_action
           (run_schedule toy_digest race_calls
              [Check First, Check Second, Write First, Write Second] (race_start empty_store))
           Second created_new)
   \<and> (\<exists>x. returned_action
             (run_schedule toy_digest race_calls
                [Check First, Check Second, Write First, Write Second] (race_start empty_store))
             x created_new
          \<and> raised
             (run_schedule toy_digest race_calls
                [Check First, Check Second, Write First, Write Second] (race_start empty_store))
             (other x) IntegrityError
          \<and> rs_db
             (run_schedule toy_digest race_calls
                [Check First, Check Second, Write First, Write Second] (race_start empty_store))
             = created_store toy_digest empty_store (race_calls x))"
proof -
  have a: "content_hashes empty_store (gene_hash toy_digest gene_sum) = None"
    by (simp add: empty_store_def)
  have b: "gene_hash toy_digest (c_gene (race_calls First)) = gene_hash toy_digest gene_sum"
    by (rule race_calls_hash)
  have c: "gene_hash toy_digest (c_gene (race_calls Second)) = gene_hash toy_digest gene_sum"
    by (rule race_calls_hash)
  have d: "c_gene_id (race_calls First) \<notin> set (map ev_gene_id (gene_evolution empty_store))"
    by (simp add: empty_store_def)
  have e: "c_gene_id (race_calls Second) \<notin> set (map ev_gene_id (gene_evolution empty_store))"
    by (simp add: empty_store_def)
  have m: "[Check First, Check Second, Write First, Write Second] \<in> set racing_schedules"
    by (simp add: racing_schedules_def)
  then have m': "[Check First, Check Second, Write First, Write Second]
      \<in> set (sequential_schedules @ racing_schedules)"
    by simp
  note race = register_race [where calls = race_calls, OF a b c d e]
  have never: "\<not> (returned_action
           (run_schedule toy_digest race_calls
              [Check First, Check Second, Write First, Write Second] (race_start empty_store))
           First created_new
        \<and> returned_action
           (run_schedule toy_digest race_calls
              [Check First, Check Second, Write First, Write Second] (race_start empty_store))
           Second created_new)"
    using race m' by blast
  have loser: "\<exists>x. returned_action
             (run_schedule toy_digest race_calls
                [Check First, Check Second, Write First, Write Second] (race_start empty_store))
             x created_new
          \<and> raised
             (run_schedule toy_digest race_calls
                [Check First, Check Second, Write First, Write Second] (race_start empty_store))
             (other x) IntegrityError
          \<and> rs_db
             (run_schedule toy_digest race_calls
                [Check First, Check Second, Write First, Write Second] (race_start empty_store))
             = created_store toy_digest empty_store (race_calls x)"
    using race m by blast
  show ?thesis using a b c d e never loser by blast
qed

text \<open>The claim as stated fails: with both checks before both writes, the second writer
  does not record a duplication; it raises, and the ledger holds the creation record of
  the first writer only.\<close>

theorem register_race_counterexample:
  "register_check toy_digest empty_store gene_sum = None
   \<and> register_check toy_digest empty_store gene_sum_spaced = None
   \<and> register_write toy_digest clock_a empty_store gene_sum ''G-1'' ''a.js'' None =
       Inr (\<lparr>r_is_duplicate = False, r_representative_gene_id = None, r_occurrence_count = None,
             r_gene_id = Some ''G-1'', r_action = created_new\<rparr>, store_one)
   \<and> register_write toy_digest clock_b store_one gene_sum_spaced ''G-2'' ''b.js'' None =
       Inl IntegrityError
   \<and> rs_outcome
       (run_schedule toy_digest race_calls
          [Check First, Check Second, Write First, Write Second] (race_start empty_store)) Second
       = Some (Inl IntegrityError)
   \<and> rs_db
       (run_schedule toy_digest race_calls
          [Check First, Check Second, Write First, Write Second] (race_start empty_store))
       = store_one
   \<and> map (\<lambda>r. (ev_gene_id r, ev_evolution_type r)) (gene_evolution store_one)
       = [(''G-1'', creation)]"
proof -
  have a: "content_hashes empty_store (gene_hash toy_digest gene_sum) = None"
    by (simp add: empty_store_def)
  have c1: "register_check toy_digest empty_store gene_sum = None"
    by (simp add: register_check_def empty_store_def)
  have c2: "register_check toy_digest empty_store gene_sum_spaced = None"
    by (simp add: register_check_def empty_store_def)
  have w1: "register_write toy_digest clock_a empty_store gene_sum ''G-1'' ''a.js'' None =
       Inr (\<lparr>r_is_duplicate = False, r_representative_gene_id = None, r_occurrence_count = None,
             r_gene_id = Some ''G-1'', r_action = created_new\<rparr>, store_one)"
    using register_write_after_check [of toy_digest clock_a empty_store gene_sum "''G-1''" "''a.js''"]
      c1 first_registration by simp
  have "content_hashes store_one (gene_hash toy_digest gene_sum_spaced) =
     Some \<lparr>ch_first_seen = clock_a 0, ch_last_seen = clock_a 1, ch_occurrence_count = 1,
         ch_representative_gene_id = ''G-1'', ch_file_paths = [''a.js''],
         ch_metadata = Complexity_Meta 0\<rparr>"
    using store_one_row by (simp add: hash_spaced)
  then have w2: "register_write toy_digest clock_b store_one gene_sum_spaced ''G-2'' ''b.js'' None =
       Inl IntegrityError"
    by (rule register_write_stale_none)
  have d: "c_gene_id (race_calls First) \<notin> set (map ev_gene_id (gene_evolution empty_store))"
    by (simp add: empty_store_def)
  note run = race_checks_first [where calls = race_calls and x = First and y = Second
      and a = First and b = Second, OF a race_calls_hash d caller.distinct(1)]
  have o: "rs_outcome
       (run_schedule toy_digest race_calls
          [Check First, Check Second, Write First, Write Second] (race_start empty_store)) Second
       = Some (Inl IntegrityError)"
    unfolding run by simp
  have s: "rs_db
       (run_schedule toy_digest race_calls
          [Check First, Check Second, Write First, Write Second] (race_start empty_store))
       = store_one"
    unfolding run by (simp add: race_calls_def created_store_call_a)
  have l: "map (\<lambda>r. (ev_gene_id r, ev_evolution_type r)) (gene_evolution store_one)
       = [(''G-1'', creation)]"
    by (simp add: store_one_def)
  show ?thesis using c1 c2 w1 w2 o s l by blast
qed

section \<open>detect\_mutations: classification by similarity\<close>

lemma calculate_similarity_jaccard:
  "calculate_similarity content1 content2
     = spec_jaccard (spec_tokens content1) (spec_tokens content2)"
proof -
  have "finite (spec_tokens content1 \<union> spec_tokens content2)"
    by (simp add: spec_tokens_def)
  then have "(0 < card (spec_tokens content1 \<union> spec_tokens content2))
      = (spec_tokens content1 \<union> spec_tokens content2 \<noteq> {})"
    using card_gt_0_iff by blast
  then show ?thesis
    unfolding calculate_similarity_def spec_jaccard_def spec_tokens_def Let_def
    by auto
qed

lemma jaccard_mutation:
  "spec_jaccard (spec_tokens ''a b c d e'') (spec_tokens ''a b c d e f'') = 5 / 6"
  unfolding calculate_similarity_jaccard [symmetric] by code_simp

lemma jaccard_refactor:
  "spec_jaccard (spec_tokens ''a b'') (spec_tokens ''a b c d'') = 1 / 2"
  unfolding calculate_similarity_jaccard [symmetric] by code_simp

lemma jaccard_replacement:
  "spec_jaccard (spec_tokens ''a b'') (spec_tokens ''c'') = 0"
  unfolding calculate_similarity_jaccard [symmetric] by code_simp

lemma jaccard_four_fifths:
  "spec_jaccard (spec_tokens ''a b c d'') (spec_tokens ''a b c d e'') = 4 / 5"
  unfolding calculate_similarity_jaccard [symmetric] by code_simp

lemma jaccard_three_tenths:
  "spec_jaccard (spec_tokens ''a b c'') (spec_tokens ''a b c d e f g h i j'') = 3 / 10"
  unfolding calculate_similarity_jaccard [symmetric] by code_simp

lemma gene_of_hash_neq:
  "normalize_content c1 \<noteq> normalize_content c2 \<Longrightarrow>
   gene_hash toy_digest (gene_of c1) \<noteq> gene_hash toy_digest (gene_of c2)"
  by (simp add: gene_hash_def calculate_content_hash_def toy_digest_def gene_of_def)

text \<open>
  Claim C3. For every pair of genes, \<open>detect_mutations\<close> returns \<open>no_change\<close> with
  confidence 1 when the fingerprints are equal, and then no similarity is in the result.
  Otherwise, with \<open>s\<close> the Jaccard similarity of the sets of whitespace-delimited tokens
  of the two normalised contents (1 when both sets are empty, the size of the intersection
  over the size of the union otherwise), it returns \<open>mutation\<close> with confidence \<open>s\<close> when
  \<open>s > 0.8\<close>, \<open>major_refactor\<close> with confidence \<open>s\<close> when \<open>0.3 < s \<le> 0.8\<close>, and
  \<open>replacement\<close> with confidence \<open>1 - s\<close> when \<open>s \<le> 0.3\<close>.
\<close>

theorem detect_mutations_classification:
  "(gene_hash sha256_hex old_gene = gene_hash sha256_hex new_gene \<longrightarrow>
      detect_mutations sha256_hex old_gene new_gene =
        \<lparr>m_type = no_change, m_confidence = 1,
         m_old_hash = None, m_new_hash = None, m_similarity = None\<rparr>)
   \<and> (gene_hash sha256_hex old_gene \<noteq> gene_hash sha256_hex new_gene \<longrightarrow>
       m_old_hash (detect_mutations sha256_hex old_gene new_gene) = Some (gene_hash sha256_hex old_gene)
     \<and> m_new_hash (detect_mutations sha256_hex old_gene new_gene) = Some (gene_hash sha256_hex new_gene)
     \<and> m_similarity (detect_mutations sha256_hex old_gene new_gene)
         = Some (spec_jaccard (spec_tokens (g_content old_gene)) (spec_tokens (g_content new_gene)))
     \<and> (spec_jaccard (spec_tokens (g_content old_gene)) (spec_tokens (g_content new_gene)) > 8 / 10 \<longrightarrow>
          m_type (detect_mutations sha256_hex old_gene new_gene) = mutation
        \<and> m_confidence (detect_mutations sha256_hex old_gene new_gene)
            = spec_jaccard (spec_tokens (g_content old_gene)) (spec_tokens (g_content new_gene)))
     \<and> (3 / 10 < spec_jaccard (spec_tokens (g_content old_gene)) (spec_tokens (g_content new_gene))
        \<and> spec_jaccard (spec_tokens (g_content old_gene)) (spec_tokens (g_content new_gene)) \<le> 8 / 10 \<longrightarrow>
          m_type (detect_mutations sha256_hex old_gene new_gene) = major_refactor
        \<and> m_confidence (detect_mutations sha256_hex old_gene new_gene)
            = spec_jaccard (spec_tokens (g_content old_gene)) (spec_tokens (g_content new_gene)))
     \<and> (spec_jaccard (spec_tokens (g_content old_gene)) (spec_tokens (g_content new_gene)) \<le> 3 / 10 \<longrightarrow>
          m_type (detect_mutations sha256_hex old_gene new_gene) = replacement
        \<and> m_confidence (detect_mutations sha256_hex old_gene new_gene)
            = 1 - spec_jaccard (spec_tokens (g_content old_gene)) (spec_tokens (g_content new_gene))))"
  by (simp add: detect_mutations_def gene_hash_def Let_def calculate_similarity_jaccard)

text \<open>One pair of genes for each of the four results: equal fingerprints, and
  similarities 5/6, 1/2 and 0.\<close>

theorem detect_mutations_classification_witness:
  "detect_mutations toy_digest gene_sum gene_sum_spaced =
     \<lparr>m_type = no_change, m_confidence = 1,
      m_old_hash = None, m_new_hash = None, m_similarity = None\<rparr>
   \<and> m_type (detect_mutations toy_digest (gene_of ''a b c d e'') (gene_of ''a b c d e f'')) = mutation
   \<and> m_confidence (detect_mutations toy_digest (gene_of ''a b c d e'') (gene_of ''a b c d e f'')) = 5 / 6
   \<and> m_type (detect_mutations toy_digest (gene_of ''a b'') (gene_of ''a b c d'')) = major_refactor
   \<and> m_confidence (detect_mutations toy_digest (gene_of ''a b'') (gene_of ''a b c d'')) = 1 / 2
   \<and> m_type (detect_mutations toy_digest (gene_of ''a b'') (gene_of ''c'')) = replacement
   \<and> m_confidence (detect_mutations toy_digest (gene_of ''a b'') (gene_of ''c'')) = 1"
proof -
  have n1: "gene_hash toy_digest (gene_of ''a b c d e'') \<noteq> gene_hash toy_digest (gene_of ''a b c d e f'')"
    by (rule gene_of_hash_neq) code_simp
  have n2: "gene_hash toy_digest (gene_of ''a b'') \<noteq> gene_hash toy_digest (gene_of ''a b c d'')"
    by (rule gene_of_hash_neq) code_simp
  have n3: "gene_hash toy_digest (gene_of ''a b'') \<noteq> gene_hash toy_digest (gene_of ''c'')"
    by (rule gene_of_hash_neq) code_simp
  have e: "gene_hash toy_digest gene_sum = gene_hash toy_digest gene_sum_spaced"
    by (simp add: hash_spaced)
  have c [simp]: "g_content (gene_of x) = x" for x by (simp add: gene_of_def)
  show ?thesis
    using detect_mutations_classification [of toy_digest gene_sum gene_sum_spaced] e
      detect_mutations_classification [of toy_digest "gene_of ''a b c d e''" "gene_of ''a b c d e f''"] n1
      detect_mutations_classification [of toy_digest "gene_of ''a b''" "gene_of ''a b c d''"] n2
      detect_mutations_classification [of toy_digest "gene_of ''a b''" "gene_of ''c''"] n3
    by (simp add: jaccard_mutation jaccard_refactor jaccard_replacement)
qed

text \<open>
  Claim C4, as the code has it. The comparisons are strict: for two genes with different
  fingerprints, a similarity of exactly 0.8 gives \<open>major_refactor\<close> with confidence 0.8 and
  a similarity of exactly 0.3 gives \<open>replacement\<close> with confidence 0.7.
\<close>

theorem detect_mutations_boundaries:
  "gene_hash sha256_hex old_gene \<noteq> gene_hash sha256_hex new_gene \<longrightarrow>
     (spec_jaccard (spec_tokens (g_content old_gene)) (spec_tokens (g_content new_gene)) = 8 / 10 \<longrightarrow>
        m_type (detect_mutations sha256_hex old_gene new_gene) = major_refactor
      \<and> m_confidence (detect_mutations sha256_hex old_gene new_gene) = 8 / 10)
   \<and> (spec_jaccard (spec_tokens (g_content old_gene)) (spec_tokens (g_content new_gene)) = 3 / 10 \<longrightarrow>
        m_type (detect_mutations sha256_hex old_gene new_gene) = replacement
      \<and> m_confidence (detect_mutations sha256_hex old_gene new_gene) = 7 / 10)"
  by (simp add: detect_mutations_def gene_hash_def Let_def calculate_similarity_jaccard)

text \<open>Four shared tokens of five, and three of ten.\<close>

theorem detect_mutations_boundaries_witness:
  "gene_hash toy_digest (gene_of ''a b c d'') \<noteq> gene_hash toy_digest (gene_of ''a b c d e'')
   \<and> spec_jaccard (spec_tokens ''a b c d'') (spec_tokens ''a b c d e'') = 8 / 10
   \<and> m_confidence (detect_mutations toy_digest (gene_of ''a b c d'') (gene_of ''a b c d e'')) = 8 / 10
   \<and> gene_hash toy_digest (gene_of ''a b c'') \<noteq> gene_hash toy_digest (gene_of ''a b c d e f g h i j'')
   \<and> spec_jaccard (spec_tokens ''a b c'') (spec_tokens ''a b c d e f g h i j'') = 3 / 10
   \<and> m_confidence (detect_mutations toy_digest (gene_of ''a b c'') (gene_of ''a b c d e f g h i j'')) = 7 / 10"
proof -
  have n1: "gene_hash toy_digest (gene_of ''a b c d'') \<noteq> gene_hash toy_digest (gene_of ''a b c d e'')"
    by (rule gene_of_hash_neq) code_simp
  have n2: "gene_hash toy_digest (gene_of ''a b c'') \<noteq> gene_hash toy_digest (gene_of ''a b c d e f g h i j'')"
    by (rule gene_of_hash_neq) code_simp
  have c [simp]: "g_content (gene_of x) = x" for x by (simp add: gene_of_def)
  show ?thesis
    using detect_mutations_boundaries [of toy_digest "gene_of ''a b c d''" "gene_of ''a b c d e''"] n1
      detect_mutations_boundaries [of toy_digest "gene_of ''a b c''" "gene_of ''a b c d e f g h i j''"] n2
    by (simp add: jaccard_four_fifths jaccard_three_tenths)
qed

text \<open>The claim as stated fails: four shared tokens of five give \<open>major_refactor\<close>, not
  \<open>mutation\<close>, and three of ten give \<open>replacement\<close>, not \<open>major_refactor\<close>.\<close>

theorem detect_mutations_boundaries_counterexample:
  "gene_hash toy_digest (gene_of ''a b c d'') \<noteq> gene_hash toy_digest (gene_of ''a b c d e'')
   \<and> calculate_similarity ''a b c d'' ''a b c d e'' = 4 / 5
   \<and> m_type (detect_mutations toy_digest (gene_of ''a b c d'') (gene_of ''a b c d e'')) = major_refactor
   \<and> gene_hash toy_digest (gene_of ''a b c'') \<noteq> gene_hash toy_digest (gene_of ''a b c d e f g h i j'')
   \<and> calculate_similarity ''a b c'' ''a b c d e f g h i j'' = 3 / 10
   \<and> m_type (detect_mutations toy_digest (gene_of ''a b c'') (gene_of ''a b c d e f g h i j'')) = replacement"
proof -
  have n1: "gene_hash toy_digest (gene_of ''a b c d'') \<noteq> gene_hash toy_digest (gene_of ''a b c d e'')"
    by (rule gene_of_hash_neq) code_simp
  have n2: "gene_hash toy_digest (gene_of ''a b c'') \<noteq> gene_hash toy_digest (gene_of ''a b c d e f g h i j'')"
    by (rule gene_of_hash_neq) code_simp
  have s1: "calculate_similarity ''a b c d'' ''a b c d e'' = 4 / 5" by code_simp
  have s2: "calculate_similarity ''a b c'' ''a b c d e f g h i j'' = 3 / 10" by code_simp
  have t1: "m_type (detect_mutations toy_digest (gene_of ''a b c d'') (gene_of ''a b c d e'')) = major_refactor"
    by code_simp
  have t2: "m_type (detect_mutations toy_digest (gene_of ''a b c'') (gene_of ''a b c d e f g h i j'')) = replacement"
    by code_simp
  show ?thesis using n1 n2 s1 s2 t1 t2 by blast
qed

section \<open>reconstruct\_file: the most recent full file wins\<close>

lemma reconstruct_loop_function:
  "function_gene g \<Longrightarrow>
   \<exists>code. reconstruct_loop (g # genes) acc n = reconstruct_loop genes (acc @ code @ [CHR 0x0A, CHR 0x0A]) (n + 1)"
proof -
  assume fg: "function_gene g"
  then obtain d where d: "gr_content g = Some d" "j_type d = Some (JString ''function'')"
    "j_code d \<noteq> Some JOther"
    by (auto simp: function_gene_def split: option.splits)
  show ?thesis
  proof (cases "j_code d")
    case None
    then have "reconstruct_loop (g # genes) acc n
        = reconstruct_loop genes (acc @ [] @ [CHR 0x0A, CHR 0x0A]) (n + 1)"
      using d by simp
    then show ?thesis by blast
  next
    case (Some v)
    then obtain code where "v = JString code" using d(3) by (cases v) auto
    then have "reconstruct_loop (g # genes) acc n
        = reconstruct_loop genes (acc @ code @ [CHR 0x0A, CHR 0x0A]) (n + 1)"
      using d Some by simp
    then show ?thesis by blast
  qed
qed

lemma reconstruct_loop_full_file:
  "gr_content F = Some f \<Longrightarrow> j_type f = Some (JString ''full_file'') \<Longrightarrow>
   j_content f = Some (JString c) \<Longrightarrow>
   reconstruct_loop (F # older) acc n = Inr (c, 1)"
  by simp

lemma reconstruct_loop_stops:
  assumes "gr_content F = Some f" "j_type f = Some (JString ''full_file'')"
    "j_content f = Some (JString c)"
  shows "\<forall>g \<in> set newer. function_gene g \<Longrightarrow>
         reconstruct_loop (newer @ F # older) acc n = Inr (c, 1)"
proof (induction newer arbitrary: acc n)
  case Nil
  then show ?case using assms by simp
next
  case (Cons g gs)
  then have "function_gene g" by simp
  then obtain code where
    "reconstruct_loop (g # (gs @ F # older)) acc n
       = reconstruct_loop (gs @ F # older) (acc @ code @ [CHR 0x0A, CHR 0x0A]) (n + 1)"
    using reconstruct_loop_function by blast
  then show ?case using Cons by simp
qed

lemma order_keeps_ties:
  assumes "\<forall>r \<in> set rows. gr_created_at r = t"
  shows "order_by_created_at_desc rows = rows"
proof -
  let ?ys = "sort_key gr_created_at (rev rows)"
  have "filter (\<lambda>y. gr_created_at y = t) ?ys = filter (\<lambda>y. gr_created_at y = t) (rev rows)"
    by (rule sort_key_stable)
  moreover have "filter (\<lambda>y. gr_created_at y = t) ?ys = ?ys"
    using assms by (simp add: filter_id_conv)
  moreover have "filter (\<lambda>y. gr_created_at y = t) (rev rows) = rev rows"
    using assms by (simp add: filter_id_conv)
  ultimately have "?ys = rev rows" by simp
  then show ?thesis by (simp add: order_by_created_at_desc_def)
qed

lemma order_three:
  assumes "set rows = {G1, F1, G2}" "length rows = 3"
    "gr_created_at G1 < gr_created_at F1" "gr_created_at F1 < gr_created_at G2"
  shows "order_by_created_at_desc rows = [G2, F1, G1]"
proof -
  let ?ys = "sort_key gr_created_at (rev rows)"
  have len: "length ?ys = 3" using assms(2) by simp
  have st: "set ?ys = {G1, F1, G2}" using assms(1) by simp
  have so: "sorted (map gr_created_at ?ys)" by (rule sorted_sort_key)
  obtain a b c where ys: "?ys = [a, b, c]"
    using len by (metis (no_types, lifting) length_0_conv length_Suc_conv numeral_3_eq_3)
  have ord: "gr_created_at a \<le> gr_created_at b" "gr_created_at b \<le> gr_created_at c"
    using so ys by auto
  have s: "{a, b, c} = {G1, F1, G2}" using st ys by simp
  have "a = G1 \<and> b = F1 \<and> c = G2"
  proof -
    have ne: "G1 \<noteq> F1" "F1 \<noteq> G2" "G1 \<noteq> G2" using assms(3,4) by auto
    have mem: "a \<in> {G1, F1, G2}" "b \<in> {G1, F1, G2}" "c \<in> {G1, F1, G2}"
      "G1 \<in> {a, b, c}" "F1 \<in> {a, b, c}" "G2 \<in> {a, b, c}"
      using s by auto
    show ?thesis using mem ne ord assms(3,4) by auto
  qed
  then show ?thesis using ys by (simp add: order_by_created_at_desc_def)
qed

text \<open>
  Claim C2. When the rows of a path are a gene \<open>G1\<close>, a full file \<open>F1\<close> and a function gene
  \<open>G2\<close> with creation times \<open>t1 < t2 < t3\<close>, in any order in the table and among rows of
  other paths, \<open>reconstruct_file\<close> for \<open>latest\<close> succeeds with exactly the stored content
  of \<open>F1\<close> and \<open>gene_count = 1\<close>. The genes are visited newest first, \<open>G2\<close>, \<open>F1\<close>, \<open>G1\<close>;
  whatever function genes come before a full file and whatever rows come after it, the loop
  returns the content of the full file and the count 1, so nothing older contributes
  (nothing is assumed about \<open>G1\<close>).
\<close>

theorem reconstruct_latest_full_file_wins:
  assumes "set (filter (\<lambda>r. gr_file_path r = file_path) table) = {G1, F1, G2}"
    and "length (filter (\<lambda>r. gr_file_path r = file_path) table) = 3"
    and "gr_created_at G1 < gr_created_at F1" and "gr_created_at F1 < gr_created_at G2"
    and "gr_content F1 = Some f" and "j_type f = Some (JString ''full_file'')"
    and "j_content f = Some (JString c)"
    and "function_gene G2"
  shows "reconstruct_file sha256_hex like (Some table) file_path ''latest'' =
           Inr \<lparr>rc_file_path = file_path, rc_version = ''latest'',
                rc_reconstructed_content = c, rc_gene_count = 1,
                rc_genes_used = [gr_gene_id G2, gr_gene_id F1, gr_gene_id G1],
                rc_content_hash = take 8 (sha256_hex c)\<rparr>
       \<and> order_by_created_at_desc (filter (\<lambda>r. gr_file_path r = file_path) table) = [G2, F1, G1]
       \<and> (\<forall>newer older acc n. (\<forall>g \<in> set newer. function_gene g) \<longrightarrow>
             reconstruct_loop (newer @ F1 # older) acc n = Inr (c, 1))"
proof -
  have ord: "order_by_created_at_desc (filter (\<lambda>r. gr_file_path r = file_path) table) = [G2, F1, G1]"
    using order_three [OF assms(1-4)] .
  have stop: "\<forall>newer older acc n. (\<forall>g \<in> set newer. function_gene g) \<longrightarrow>
             reconstruct_loop (newer @ F1 # older) acc n = Inr (c, 1)"
    using reconstruct_loop_stops [OF assms(5-7)] by blast
  have "reconstruct_loop ([G2] @ F1 # [G1]) [] 0 = Inr (c, 1)"
    using stop assms(8) by (metis empty_iff empty_set set_ConsD)
  then have loop: "reconstruct_loop [G2, F1, G1] [] 0 = Inr (c, 1)" by simp
  have "reconstruct_file sha256_hex like (Some table) file_path ''latest'' =
           Inr \<lparr>rc_file_path = file_path, rc_version = ''latest'',
                rc_reconstructed_content = c, rc_gene_count = 1,
                rc_genes_used = [gr_gene_id G2, gr_gene_id F1, gr_gene_id G1],
                rc_content_hash = take 8 (sha256_hex c)\<rparr>"
    unfolding reconstruct_file_def by (simp add: ord loop del: reconstruct_loop.simps)
  then show ?thesis using ord stop by blast
qed

text \<open>The example table.\<close>

theorem reconstruct_latest_full_file_wins_witness:
  "set (filter (\<lambda>r. gr_file_path r = ''src/app.js'') genes_table) = {row_g1, row_f1, row_g2}
   \<and> length (filter (\<lambda>r. gr_file_path r = ''src/app.js'') genes_table) = 3
   \<and> gr_created_at row_g1 < gr_created_at row_f1 \<and> gr_created_at row_f1 < gr_created_at row_g2
   \<and> function_gene row_g2
   \<and> reconstruct_file toy_digest (\<lambda>p s. False) (Some genes_table) ''src/app.js'' ''latest'' =
        Inr \<lparr>rc_file_path = ''src/app.js'', rc_version = ''latest'',
             rc_reconstructed_content = ''const x = 1;'', rc_gene_count = 1,
             rc_genes_used = [''GENE-3'', ''GENE-2'', ''GENE-1''],
             rc_content_hash = ''const x ''\<rparr>"
proof -
  have a: "set (filter (\<lambda>r. gr_file_path r = ''src/app.js'') genes_table) = {row_g1, row_f1, row_g2}"
    by (auto simp: genes_table_def row_g1_def row_f1_def row_g2_def row_other_def)
  have b: "length (filter (\<lambda>r. gr_file_path r = ''src/app.js'') genes_table) = 3"
    by (simp add: genes_table_def row_g1_def row_f1_def row_g2_def row_other_def)
  have c: "gr_created_at row_g1 < gr_created_at row_f1" by (simp add: row_g1_def row_f1_def)
  have d: "gr_created_at row_f1 < gr_created_at row_g2" by (simp add: row_g2_def row_f1_def)
  have e: "gr_content row_f1 = Some \<lparr>j_type = Some (JString ''full_file''), j_code = None,
                                j_content = Some (JString ''const x = 1;'')\<rparr>"
    by (simp add: row_f1_def)
  have f: "function_gene row_g2" by (simp add: function_gene_def row_g2_def)
  have ids: "gr_gene_id row_g2 = ''GENE-3''" "gr_gene_id row_f1 = ''GENE-2''" "gr_gene_id row_g1 = ''GENE-1''"
    by (simp_all add: row_g1_def row_f1_def row_g2_def)
  have h: "take 8 (toy_digest ''const x = 1;'') = ''const x ''" by (simp add: toy_digest_def)
  show ?thesis
    using reconstruct_latest_full_file_wins [OF a b c d e, of "''const x = 1;''" toy_digest "\<lambda>p s. False"] f
      a b c d ids h
    by simp
qed

end
